theory Spec2Isabelle
  imports Main "HOL-Library.Sublist"
begin

section \<open>Data model\<close>

text \<open>
  The repository is a set of Python scripts that crawl the S3 listing of
  data.binance.vision (\<^verbatim>\<open>utils.py\<close>, \<^verbatim>\<open>download_xml_multiprocess.py\<close>), pick the
  archive keys out of the mirrored listing documents (\<^verbatim>\<open>download_zip_data.py\<close>,
  \<^verbatim>\<open>count_xml_zip_files.py\<close>) and download them.

  Python \<^verbatim>\<open>str\<close> and \<^verbatim>\<open>bytes\<close> are both \<^typ>\<open>string\<close> here. Output written with
  \<^verbatim>\<open>print\<close> and the tqdm progress bar are not part of the model: no function of the
  source reads them back.
\<close>

text \<open>
  An \<^verbatim>\<open>xml.etree.ElementTree.Element\<close>: its tag (with the namespace in Clark notation,
  \<^verbatim>\<open>{uri}local\<close>), its \<^verbatim>\<open>text\<close> attribute, here \<open>etext\<close> (\<^verbatim>\<open>None\<close> for an element without character
  data, such as \<^verbatim>\<open><Prefix/>\<close> or \<^verbatim>\<open><Prefix></Prefix>\<close>) and its child elements in
  document order.
\<close>

datatype element = Element (tag: string) (etext: "string option") (children: "element list")

text \<open>
  A value that the crawler handles as a prefix: a Python \<^verbatim>\<open>str\<close>, or \<^verbatim>\<open>None\<close> when it
  was read from the \<^verbatim>\<open>text\<close> of an empty element.
\<close>

type_synonym pfx = "string option"

text \<open>
  The exceptions the scripts meet. All of them are subclasses of \<^verbatim>\<open>Exception\<close>; the
  argument is the text of \<^verbatim>\<open>str(e)\<close> where the source uses it.
\<close>

datatype exn =
    ParseError string
  | FileNotFoundError
  | TypeError
  | OSError string
  | RequestException string
  | UnicodeDecodeError
  | ValueError
  | TimeoutError

text \<open>
  A \<^verbatim>\<open>pathlib.Path\<close>, kept symbolic: \<^verbatim>\<open>Path(s)\<close> and \<^verbatim>\<open>p / s\<close>. Dividing a path by \<^verbatim>\<open>None\<close>
  raises \<^verbatim>\<open>TypeError\<close>.
\<close>

datatype path = Path string | Join path string

definition path_div :: "path \<Rightarrow> pfx \<Rightarrow> exn + path" where
  "path_div p x = (case x of None \<Rightarrow> Inl TypeError | Some s \<Rightarrow> Inr (Join p s))"

section \<open>Listing parser\<close>

text \<open>
  \<^verbatim>\<open>namespaces = {"s3": "http://s3.amazonaws.com/doc/2006-03-01/"}\<close>;
  \<^verbatim>\<open>e.findall("s3:Name", namespaces)\<close> returns the direct children of \<^verbatim>\<open>e\<close> with that
  qualified tag, in document order, and \<^verbatim>\<open>e.find("s3:Name", namespaces)\<close> the first of
  them or \<^verbatim>\<open>None\<close>.
\<close>

definition s3 :: string where
  "s3 = ''{http://s3.amazonaws.com/doc/2006-03-01/}''"

definition findall :: "element \<Rightarrow> string \<Rightarrow> element list" where
  "findall e name = filter (\<lambda>c. tag c = s3 @ name) (children e)"

definition find_child :: "element \<Rightarrow> string \<Rightarrow> element option" where
  "find_child e name = List.find (\<lambda>c. tag c = s3 @ name) (children e)"

text \<open>
  \<^verbatim>\<open>get_common_prefixes\<close> (the same code in \<^verbatim>\<open>utils.py\<close> and
  \<^verbatim>\<open>download_xml_multiprocess.py\<close>). \<^verbatim>\<open>ET.fromstring\<close> is the library's parser and is a
  parameter: \<open>Inl msg\<close> when it raises \<^verbatim>\<open>ET.ParseError\<close>, \<open>Inr root\<close> otherwise. The
  loop appends \<^verbatim>\<open>prefix_elem.text\<close> whatever it is.
\<close>

primrec common_prefixes_loop :: "element list \<Rightarrow> pfx list \<Rightarrow> pfx list" where
  "common_prefixes_loop [] pfxs = pfxs"
| "common_prefixes_loop (common_prefix_elem # rest) pfxs =
     (case find_child common_prefix_elem ''Prefix'' of
        None \<Rightarrow> common_prefixes_loop rest pfxs
      | Some prefix_elem \<Rightarrow> common_prefixes_loop rest (pfxs @ [etext prefix_elem]))"

definition get_common_prefixes :: "(string \<Rightarrow> string + element) \<Rightarrow> string \<Rightarrow> pfx list" where
  "get_common_prefixes fromstring xml_string =
     (case fromstring xml_string of
        Inl e \<Rightarrow> []
      | Inr root \<Rightarrow> common_prefixes_loop (findall root ''CommonPrefixes'') [])"

section \<open>Key filter\<close>

text \<open>\<^verbatim>\<open>s.endswith(t)\<close> is \<^term>\<open>suffix t s\<close>; \<^verbatim>\<open>t in s\<close> on strings is \<^term>\<open>sublist t s\<close>.\<close>

definition endswith :: "string \<Rightarrow> string \<Rightarrow> bool" where
  "endswith s t = suffix t s"

text \<open>Truthiness of \<^verbatim>\<open>key_elem.text\<close>: neither \<^verbatim>\<open>None\<close> nor the empty string.\<close>

definition truthy :: "string option \<Rightarrow> bool" where
  "truthy x = (case x of None \<Rightarrow> False | Some s \<Rightarrow> s \<noteq> [])"

text \<open>
  The test of \<^verbatim>\<open>extract_zip_files_from_xml\<close> and \<^verbatim>\<open>count_zip_files_in_xml\<close>:
  \<^verbatim>\<open>key_elem.text.endswith(".zip") and not key_elem.text.endswith(".zip.CHECKSUM")\<close>.
\<close>

definition is_wanted :: "string \<Rightarrow> bool" where
  "is_wanted key = (endswith key ''.zip'' \<and> \<not> endswith key ''.zip.CHECKSUM'')"

primrec zip_files_loop :: "element list \<Rightarrow> string list \<Rightarrow> string list" where
  "zip_files_loop [] zip_files = zip_files"
| "zip_files_loop (contents_elem # rest) zip_files =
     (case find_child contents_elem ''Key'' of
        None \<Rightarrow> zip_files_loop rest zip_files
      | Some key_elem \<Rightarrow>
          (if truthy (etext key_elem) then
             (if is_wanted (the (etext key_elem))
              then zip_files_loop rest (zip_files @ [the (etext key_elem)])
              else zip_files_loop rest zip_files)
           else zip_files_loop rest zip_files))"

text \<open>
  \<^verbatim>\<open>extract_zip_files_from_xml\<close> of \<^verbatim>\<open>download_zip_data.py\<close>. Reading the file is a
  parameter (\<open>Inl\<close> the exception of \<^verbatim>\<open>open\<close> or \<^verbatim>\<open>read\<close>). Every exception leads to an
  \<^verbatim>\<open>except\<close> clause that prints and falls through to \<^verbatim>\<open>return zip_files\<close>, which is
  still empty then.
\<close>

definition extract_zip_files_from_xml ::
  "(path \<Rightarrow> exn + string) \<Rightarrow> (string \<Rightarrow> string + element) \<Rightarrow> path \<Rightarrow> string list" where
  "extract_zip_files_from_xml read_text fromstring xml_file_path =
     (case read_text xml_file_path of
        Inl e \<Rightarrow> []
      | Inr xml_content \<Rightarrow>
          (case fromstring xml_content of
             Inl e \<Rightarrow> []
           | Inr root \<Rightarrow> zip_files_loop (findall root ''Contents'') []))"

text \<open>
  \<^verbatim>\<open>count_zip_files_in_xml\<close> of \<^verbatim>\<open>count_xml_zip_files.py\<close>: the same loop; the result
  carries the number of keys, the keys and an error text (\<open>None\<close> for the empty
  string of the success case).
\<close>

definition count_zip_files_in_xml ::
  "(path \<Rightarrow> exn + string) \<Rightarrow> (string \<Rightarrow> string + element) \<Rightarrow> path
     \<Rightarrow> path \<times> nat \<times> string list \<times> exn option" where
  "count_zip_files_in_xml read_text fromstring xml_file_path =
     (case read_text xml_file_path of
        Inl e \<Rightarrow> (xml_file_path, 0, [], Some e)
      | Inr xml_content \<Rightarrow>
          (case fromstring xml_content of
             Inl m \<Rightarrow> (xml_file_path, 0, [], Some (ParseError m))
           | Inr root \<Rightarrow>
               (let zip_files = zip_files_loop (findall root ''Contents'') []
                in (xml_file_path, length zip_files, zip_files, None))))"

text \<open>
  \<^verbatim>\<open>get_zip_files_from_xml\<close> of \<^verbatim>\<open>utils.py\<close> tests \<^verbatim>\<open>endswith(".zip")\<close> only.
\<close>

primrec utils_zip_files_loop :: "element list \<Rightarrow> string list \<Rightarrow> string list" where
  "utils_zip_files_loop [] zip_files = zip_files"
| "utils_zip_files_loop (contents_elem # rest) zip_files =
     (case find_child contents_elem ''Key'' of
        None \<Rightarrow> utils_zip_files_loop rest zip_files
      | Some key_elem \<Rightarrow>
          (if truthy (etext key_elem) then
             (if endswith (the (etext key_elem)) ''.zip''
              then utils_zip_files_loop rest (zip_files @ [the (etext key_elem)])
              else utils_zip_files_loop rest zip_files)
           else utils_zip_files_loop rest zip_files))"

definition get_zip_files_from_xml :: "(string \<Rightarrow> string + element) \<Rightarrow> string \<Rightarrow> string list" where
  "get_zip_files_from_xml fromstring xml_string =
     (case fromstring xml_string of
        Inl e \<Rightarrow> []
      | Inr root \<Rightarrow> utils_zip_files_loop (findall root ''Contents'') [])"

text \<open>
  \<^verbatim>\<open>str.zfill(width)\<close>: zeros are put after a leading sign.
\<close>

definition zfill :: "string \<Rightarrow> nat \<Rightarrow> string" where
  "zfill s width =
     (if length s \<ge> width then s
      else (case s of
              [] \<Rightarrow> replicate width (CHR ''0'')
            | c # cs \<Rightarrow>
                (if c = CHR ''+'' \<or> c = CHR ''-''
                 then c # replicate (width - length s) (CHR ''0'') @ cs
                 else replicate (width - length s) (CHR ''0'') @ s)))"

text \<open>
  \<^verbatim>\<open>filter_files_by_date\<close>: without a year or a month (\<^verbatim>\<open>None\<close> or empty) the list is
  returned as it is; otherwise a key stays when \<^verbatim>\<open>date_pattern in zip_file\<close>.
\<close>

primrec filter_files_loop :: "string \<Rightarrow> string list \<Rightarrow> string list \<Rightarrow> string list" where
  "filter_files_loop date_pattern [] filtered_files = filtered_files"
| "filter_files_loop date_pattern (zip_file # rest) filtered_files =
     (if sublist date_pattern zip_file
      then filter_files_loop date_pattern rest (filtered_files @ [zip_file])
      else filter_files_loop date_pattern rest filtered_files)"

definition filter_files_by_date ::
  "string list \<Rightarrow> string option \<Rightarrow> string option \<Rightarrow> string list" where
  "filter_files_by_date zip_files year month =
     (if \<not> truthy year \<or> \<not> truthy month then zip_files
      else (let date_pattern = the year @ ''-'' @ zfill (the month) 2
            in filter_files_loop date_pattern zip_files []))"

section \<open>Mirror file name\<close>

text \<open>
  \<^verbatim>\<open>f"directory_{prefix.replace('/', '_').rstrip('_')}.xml"\<close>, written the same way in
  \<^verbatim>\<open>process_s3_directory_recursive\<close> and \<^verbatim>\<open>download_xml_worker\<close>. \<^verbatim>\<open>rstrip('_')\<close>
  removes every trailing underscore.
\<close>

definition replace :: "string \<Rightarrow> char \<Rightarrow> char \<Rightarrow> string" where
  "replace s old new = map (\<lambda>c. if c = old then new else c) s"

definition rstrip :: "string \<Rightarrow> char \<Rightarrow> string" where
  "rstrip s c = rev (dropWhile (\<lambda>x. x = c) (rev s))"

definition xml_filename :: "string \<Rightarrow> string" where
  "xml_filename pfx = ''directory_'' @ rstrip (replace pfx (CHR ''/'') (CHR ''_'')) (CHR ''_'') @ ''.xml''"

section \<open>The outside world\<close>

text \<open>
  The value of the \<^verbatim>\<open>content-length\<close> header after \<^verbatim>\<open>int(...)\<close>: absent (the default 0
  is taken), a number, or a text on which \<^verbatim>\<open>int\<close> raises \<^verbatim>\<open>ValueError\<close>.
\<close>

datatype header = Absent | Num int | Malformed

text \<open>
  A \<^verbatim>\<open>requests.Response\<close> that passed \<^verbatim>\<open>raise_for_status()\<close>: \<open>content\<close> is
  \<^verbatim>\<open>response.content\<close> (\<open>Inl\<close> when reading the body raises); \<open>chunks\<close> are the chunks
  that \<^verbatim>\<open>iter_content\<close> yields and \<open>stream_exn\<close> the exception that ends the iteration
  after them, if any.
\<close>

record response =
  content_length :: header
  content :: "exn + string"
  chunks :: "string list"
  stream_exn :: "exn option"

text \<open>
  What the network and the file system do during one invocation of a worker. The
  retrying session of \<^verbatim>\<open>setup_session\<close> / \<^verbatim>\<open>send_xml_request_with_retry\<close> is library code
  (urllib3 \<^verbatim>\<open>Retry\<close>, \<^verbatim>\<open>HTTPAdapter\<close>): \<open>get_result\<close> is the outcome of
  \<^verbatim>\<open>session.get(...)\<close> followed by \<^verbatim>\<open>response.raise_for_status()\<close>, after whatever
  retries the library made. \<open>pool_get_exn\<close> is an exception raised by
  \<^verbatim>\<open>result_async.get(timeout=60)\<close> in the coordinator. \<open>log_open_exn\<close> and
  \<open>log_write_exn\<close> are the exceptions raised by \<^verbatim>\<open>open\<close> and by \<^verbatim>\<open>write\<close> on
  \<^verbatim>\<open>errors.log\<close>. \<^verbatim>\<open>Path.exists\<close> is taken not to raise.
\<close>

record io =
  mkdir_exn :: "exn option"
  get_result :: "exn + response"
  open_exn :: "exn option"
  write_exn :: "exn option"
  unlink_exn :: "exn option"
  pool_get_exn :: "exn option"
  log_open_exn :: "exn option"
  log_write_exn :: "exn option"

text \<open>
  The regular files that the scripts write, by path, and the URLs requested so far.
\<close>

record world =
  files :: "path \<rightharpoonup> string"
  gets :: "string list"

section \<open>Archive downloader\<close>

text \<open>
  \<^verbatim>\<open>download_file_worker\<close>. The body of the \<^verbatim>\<open>try\<close> returns \<open>Inl e\<close> where the source
  raises; the world it returns holds what was written until then. \<^verbatim>\<open>open(p, "wb")\<close>
  creates or truncates the file before anything is written to it.
\<close>

definition download_file_body :: "io \<Rightarrow> world \<Rightarrow> string \<times> path \<times> int \<Rightarrow> (exn + bool \<times> string \<times> path) \<times> world" where
  "download_file_body w st args_tuple =
     (case args_tuple of (url, local_path, retries) \<Rightarrow>
        if files st local_path \<noteq> None then (Inr (True, url, local_path), st)
        else (case mkdir_exn w of Some e \<Rightarrow> (Inl e, st) | None \<Rightarrow>
          (let st1 = st\<lparr>gets := gets st @ [url]\<rparr> in
           case get_result w of Inl e \<Rightarrow> (Inl e, st1) | Inr response \<Rightarrow>
            (case content_length response of
               Malformed \<Rightarrow> (Inl ValueError, st1)
             | hdr \<Rightarrow>
              (let total_size = (case hdr of Num n \<Rightarrow> n | _ \<Rightarrow> 0) in
               case open_exn w of Some e \<Rightarrow> (Inl e, st1) | None \<Rightarrow>
                (let st2 = st1\<lparr>files := (files st1)(local_path \<mapsto> [])\<rparr> in
                 if total_size = 0 then
                   (case content response of Inl e \<Rightarrow> (Inl e, st2) | Inr body \<Rightarrow>
                     (case write_exn w of Some e \<Rightarrow> (Inl e, st2) | None \<Rightarrow>
                        (Inr (True, url, local_path),
                         st2\<lparr>files := (files st2)(local_path \<mapsto> body)\<rparr>)))
                 else
                   (let st3 = st2\<lparr>files := (files st2)(local_path \<mapsto>
                                  concat (filter (\<lambda>chunk. chunk \<noteq> []) (chunks response)))\<rparr> in
                    case stream_exn response of Some e \<Rightarrow> (Inl e, st3)
                    | None \<Rightarrow> (Inr (True, url, local_path), st3))))))))"

definition download_file_worker :: "io \<Rightarrow> world \<Rightarrow> string \<times> path \<times> int \<Rightarrow> (bool \<times> string \<times> path) \<times> world" where
  "download_file_worker w st args_tuple =
     (case args_tuple of (url, local_path, retries) \<Rightarrow>
        (case download_file_body w st args_tuple of
           (Inr result, st') \<Rightarrow> (result, st')
         | (Inl e, st') \<Rightarrow>
             (if files st' local_path \<noteq> None then
                (case unlink_exn w of
                   None \<Rightarrow> ((False, url, local_path), st'\<lparr>files := (files st')(local_path := None)\<rparr>)
                 | Some e' \<Rightarrow> ((False, url, local_path), st'))
              else ((False, url, local_path), st'))))"

text \<open>
  The batch of \<^verbatim>\<open>main\<close> in \<^verbatim>\<open>download_zip_data.py\<close>: one future per task; for each
  result the counters are updated and a failed URL is appended to \<^verbatim>\<open>failed_files\<close>.
  The thread pool completes the futures in an order of its own; the model handles
  them in the order of \<^verbatim>\<open>download_tasks\<close>, the \<open>i\<close>-th task meeting the world
  \<open>task_io i\<close>. The worker catches every exception, so \<^verbatim>\<open>future.result()\<close> returns.
\<close>

record batch =
  bworld :: world
  successful_downloads :: nat
  failed_downloads :: nat
  failed_files :: "string list"

primrec download_loop :: "(nat \<Rightarrow> io) \<Rightarrow> nat \<Rightarrow> (string \<times> path \<times> int) list \<Rightarrow> batch \<Rightarrow> batch" where
  "download_loop task_io i [] b = b"
| "download_loop task_io i (task # rest) b =
     (case download_file_worker (task_io i) (bworld b) task of
        ((success, result_url, result_path), st') \<Rightarrow>
          (if success
           then download_loop task_io (Suc i) rest
                  (b\<lparr>bworld := st', successful_downloads := successful_downloads b + 1\<rparr>)
           else download_loop task_io (Suc i) rest
                  (b\<lparr>bworld := st', failed_downloads := failed_downloads b + 1,
                     failed_files := failed_files b @ [result_url]\<rparr>)))"

text \<open>Decimal digits of a natural number, and the format \<^verbatim>\<open>f"{month_int:02d}"\<close>.\<close>

fun str_nat :: "nat \<Rightarrow> string" where
  "str_nat n = (if n < 10 then [char_of (48 + n)] else str_nat (n div 10) @ [char_of (48 + n mod 10)])"

definition format_02d :: "int \<Rightarrow> string" where
  "format_02d n =
     (if n < 0 then CHR ''-'' # str_nat (nat (- n))
      else (let ds = str_nat (nat n) in replicate (2 - length ds) (CHR ''0'') @ ds))"

text \<open>\<^verbatim>\<open>str.lower\<close> on ASCII text.\<close>

definition lower :: "string \<Rightarrow> string" where
  "lower s = map (\<lambda>c. if 65 \<le> (of_char c :: nat) \<and> (of_char c :: nat) \<le> 90
                       then char_of ((of_char c :: nat) + 32) else c) s"

text \<open>
  The command line of \<^verbatim>\<open>download_zip_data.py\<close> after \<^verbatim>\<open>parse_args\<close>, and what \<^verbatim>\<open>main\<close>
  takes from outside: \<^verbatim>\<open>int\<close> on a string (\<open>None\<close> for \<^verbatim>\<open>ValueError\<close>), the state of the
  data directory, the answer typed at the prompt, \<^verbatim>\<open>urljoin\<close>, and the world of each
  download task.
\<close>

record zip_args =
  arg_year :: "string option"
  arg_month :: "string option"
  data_dir :: path
  download_dir :: path
  arg_workers :: int
  arg_retries :: int

record zip_env =
  py_int :: "string \<Rightarrow> int option"
  data_dir_exists :: bool
  rglob_xml :: "path list"
  read_text :: "path \<Rightarrow> exn + string"
  zip_fromstring :: "string \<Rightarrow> string + element"
  user_input :: string
  download_dir_mkdir_exn :: "exn option"
  urljoin :: "string \<Rightarrow> string \<Rightarrow> string"
  task_io :: "nat \<Rightarrow> io"

text \<open>
  How a run of the script ends: \<^verbatim>\<open>sys.exit(code)\<close>, an exception that nothing
  catches (the interpreter prints a traceback and exits with status 1), or the end
  of \<^verbatim>\<open>main\<close> (status 0). \<^verbatim>\<open>ThreadPoolExecutor(max_workers=n)\<close> raises \<^verbatim>\<open>ValueError\<close>
  for \<^verbatim>\<open>n <= 0\<close>, and \<^verbatim>\<open>Pool(processes=n)\<close> for \<^verbatim>\<open>n < 1\<close>.
\<close>

datatype ending = Exit int | Uncaught exn | Returned

definition exit_status :: "ending \<Rightarrow> int" where
  "exit_status e = (case e of Exit code \<Rightarrow> code | Uncaught x \<Rightarrow> 1 | Returned \<Rightarrow> 0)"

text \<open>
  The validation at the head of \<^verbatim>\<open>main\<close>: \<open>Inl code\<close> is \<^verbatim>\<open>sys.exit(code)\<close>, \<open>Inr\<close> the
  values of the local variables \<^verbatim>\<open>year\<close> and \<^verbatim>\<open>month\<close>.
\<close>

definition validate_args ::
  "(string \<Rightarrow> int option) \<Rightarrow> string option \<Rightarrow> string option \<Rightarrow> int + (string option \<times> string option)" where
  "validate_args to_int a_year a_month =
     (if truthy a_year \<or> truthy a_month then
        (if \<not> (truthy a_year \<and> truthy a_month) then Inl 1
         else (case to_int (the a_year) of
                 None \<Rightarrow> Inl 1
               | Some year_int \<Rightarrow>
                  (case to_int (the a_month) of
                     None \<Rightarrow> Inl 1
                   | Some month_int \<Rightarrow>
                       (if \<not> (1 \<le> month_int \<and> month_int \<le> 12) then Inl 1
                        else Inr (a_year, Some (format_02d month_int))))))
      else Inr (None, None))"

definition S3_BASE_URL_zip :: string where
  "S3_BASE_URL_zip = ''https://data.binance.vision/''"

primrec extract_all :: "zip_env \<Rightarrow> path list \<Rightarrow> string list \<Rightarrow> string list" where
  "extract_all env [] all_zip_files = all_zip_files"
| "extract_all env (xml_file # rest) all_zip_files =
     extract_all env rest
       (all_zip_files @ extract_zip_files_from_xml (read_text env) (zip_fromstring env) xml_file)"

definition zip_main :: "zip_env \<Rightarrow> zip_args \<Rightarrow> world \<Rightarrow> ending \<times> batch" where
  "zip_main env args st =
     (let b0 = \<lparr>bworld = st, successful_downloads = 0, failed_downloads = 0, failed_files = []\<rparr> in
      case validate_args (py_int env) (arg_year args) (arg_month args) of
        Inl code \<Rightarrow> (Exit code, b0)
      | Inr (year, month) \<Rightarrow>
          if \<not> data_dir_exists env then (Exit 1, b0)
          else (let xml_files = rglob_xml env in
            if xml_files = [] then (Exit 1, b0)
            else (let all_zip_files = extract_all env xml_files [];
                      filtered_files =
                        (if truthy year \<and> truthy month
                         then filter_files_by_date all_zip_files year month
                         else all_zip_files) in
              if filtered_files = [] then (Exit 0, b0)
              else if lower (user_input env) \<notin> set [''y'', ''yes''] then (Exit 0, b0)
              else (case download_dir_mkdir_exn env of
                      Some e \<Rightarrow> (Uncaught e, b0)
                    | None \<Rightarrow>
                       if arg_workers args \<le> 0 then (Uncaught ValueError, b0)
                       else
                       (let download_tasks =
                              map (\<lambda>file_key. (urljoin env S3_BASE_URL_zip file_key,
                                                Join (download_dir args) file_key,
                                                arg_retries args)) filtered_files
                        in (Returned, download_loop (task_io env) 0 download_tasks b0))))))"

section \<open>Level-synchronised crawler\<close>

definition S3_BASE_URL :: string where
  "S3_BASE_URL = ''https://s3-ap-northeast-1.amazonaws.com/data.binance.vision?delimiter=/&prefix=''"

text \<open>
  \<^verbatim>\<open>download_xml_worker\<close> of \<^verbatim>\<open>download_xml_multiprocess.py\<close>. The result is the tuple
  \<^verbatim>\<open>(success, error message, xml path, child prefixes)\<close>; the error message \<^verbatim>\<open>str(e)\<close>
  is kept as the exception itself, \<open>None\<close> standing for the empty string.
  \<^verbatim>\<open>bytes.decode("utf-8")\<close> is a parameter.
\<close>

type_synonym xml_result = "bool \<times> exn option \<times> path \<times> pfx list"

definition download_xml_body ::
  "(string \<Rightarrow> string + element) \<Rightarrow> (string \<Rightarrow> exn + string) \<Rightarrow> io \<Rightarrow> world
     \<Rightarrow> pfx \<times> path \<times> int \<Rightarrow> (exn + xml_result) \<times> world" where
  "download_xml_body fromstring decode w st args_tuple =
     (case args_tuple of (pfx, save_dir, retries) \<Rightarrow>
       (case path_div save_dir pfx of Inl e \<Rightarrow> (Inl e, st) | Inr local_dir \<Rightarrow>
        (case mkdir_exn w of Some e \<Rightarrow> (Inl e, st) | None \<Rightarrow>
         (let full_url = S3_BASE_URL @ the pfx;
              st1 = st\<lparr>gets := gets st @ [full_url]\<rparr> in
          case get_result w of Inl e \<Rightarrow> (Inl e, st1) | Inr response \<Rightarrow>
           (case content response of Inl e \<Rightarrow> (Inl e, st1) | Inr xml_content \<Rightarrow>
            (let xml_file_path = Join local_dir (xml_filename (the pfx)) in
             case open_exn w of Some e \<Rightarrow> (Inl e, st1) | None \<Rightarrow>
              (let st2 = st1\<lparr>files := (files st1)(xml_file_path \<mapsto> [])\<rparr> in
               case write_exn w of Some e \<Rightarrow> (Inl e, st2) | None \<Rightarrow>
                (let st3 = st2\<lparr>files := (files st2)(xml_file_path \<mapsto> xml_content)\<rparr> in
                 case decode xml_content of Inl e \<Rightarrow> (Inl e, st3) | Inr xml_string \<Rightarrow>
                   (Inr (True, None, xml_file_path, get_common_prefixes fromstring xml_string),
                    st3)))))))))"

definition download_xml_worker ::
  "(string \<Rightarrow> string + element) \<Rightarrow> (string \<Rightarrow> exn + string) \<Rightarrow> io \<Rightarrow> world
     \<Rightarrow> pfx \<times> path \<times> int \<Rightarrow> xml_result \<times> world" where
  "download_xml_worker fromstring decode w st args_tuple =
     (case download_xml_body fromstring decode w st args_tuple of
        (Inr result, st') \<Rightarrow> (result, st')
      | (Inl e, st') \<Rightarrow> ((False, Some e, Path [], []), st'))"

text \<open>
  The messages handed to \<^verbatim>\<open>progress_callback\<close> (which \<^verbatim>\<open>main\<close> sends to
  \<^verbatim>\<open>logger.info\<close>): a download that succeeded, with \<^verbatim>\<open>xml_path.name\<close>; a download that
  the worker reported as failed; a task whose result could not be fetched.
\<close>

datatype log_msg =
    Downloaded string
  | DownloadFailed pfx "exn option"
  | TaskException pfx exn

fun path_name :: "path \<Rightarrow> string" where
  "path_name (Path s) = s"
| "path_name (Join p s) = s"

text \<open>
  The local variables of \<^verbatim>\<open>process_level_with_multiprocessing\<close>. \<open>seen\<close> is not a
  variable of the source: it lists, task by task, what the coordinator got from
  \<^verbatim>\<open>result_async.get\<close> (\<open>Inl\<close> an exception, \<open>Inr\<close> the worker's tuple).
\<close>

record level_acc =
  lworld :: world
  next_level_prefixes :: "pfx list"
  successful :: nat
  failed :: nat
  failed_tasks :: "(pfx \<times> exn option) list"
  messages :: "log_msg list"
  seen :: "(pfx \<times> (exn + xml_result)) list"

text \<open>
  The loop that collects the results, in the order of \<^verbatim>\<open>download_tasks\<close>. The workers
  run in other processes; \<open>env pfx\<close> is the world that the worker for \<open>pfx\<close> meets. The
  model runs the workers one after the other in that order, and keeps what a
  worker wrote also when \<^verbatim>\<open>result_async.get\<close> raises in the coordinator. The creation
  of the pool is taken to fail only for a number of processes below one.
\<close>

primrec collect_results ::
  "(string \<Rightarrow> string + element) \<Rightarrow> (string \<Rightarrow> exn + string) \<Rightarrow> (pfx \<Rightarrow> io) \<Rightarrow> bool
     \<Rightarrow> (pfx \<times> path \<times> int) list \<Rightarrow> level_acc \<Rightarrow> level_acc" where
  "collect_results fromstring decode env progress_callback [] a = a"
| "collect_results fromstring decode env progress_callback (task # rest) a =
     (case download_xml_worker fromstring decode (env (fst task)) (lworld a) task of
        (result, st') \<Rightarrow>
          (case pool_get_exn (env (fst task)) of
             Some e \<Rightarrow>
               collect_results fromstring decode env progress_callback rest
                 (a\<lparr>lworld := st',
                    failed := failed a + 1,
                    failed_tasks := failed_tasks a @ [(fst task, Some e)],
                    messages := messages a @ (if progress_callback then [TaskException (fst task) e] else []),
                    seen := seen a @ [(fst task, Inl e)]\<rparr>)
           | None \<Rightarrow>
               (case result of (success, error_msg, xml_path, child_prefixes) \<Rightarrow>
                  if success then
                    collect_results fromstring decode env progress_callback rest
                      (a\<lparr>lworld := st',
                         successful := successful a + 1,
                         next_level_prefixes := next_level_prefixes a @ child_prefixes,
                         messages := messages a @ (if progress_callback then [Downloaded (path_name xml_path)] else []),
                         seen := seen a @ [(fst task, Inr result)]\<rparr>)
                  else
                    collect_results fromstring decode env progress_callback rest
                      (a\<lparr>lworld := st',
                         failed := failed a + 1,
                         failed_tasks := failed_tasks a @ [(fst task, error_msg)],
                         messages := messages a @ (if progress_callback then [DownloadFailed (fst task) error_msg] else []),
                         seen := seen a @ [(fst task, Inr result)]\<rparr>))))"

text \<open>
  \<^verbatim>\<open>process_level_with_multiprocessing\<close>. The source returns
  \<^verbatim>\<open>(next_level_prefixes, successful_downloads, failed_downloads)\<close>; the other fields
  of the accumulator are local to the call (\<^verbatim>\<open>failed_tasks\<close> is printed and dropped).
\<close>

definition level_start :: "world \<Rightarrow> level_acc" where
  "level_start st = \<lparr>lworld = st, next_level_prefixes = [], successful = 0, failed = 0,
                     failed_tasks = [], messages = [], seen = []\<rparr>"

definition process_level_with_multiprocessing ::
  "(string \<Rightarrow> string + element) \<Rightarrow> (string \<Rightarrow> exn + string) \<Rightarrow> (pfx \<Rightarrow> io)
     \<Rightarrow> pfx list \<Rightarrow> path \<Rightarrow> int \<Rightarrow> int \<Rightarrow> int \<Rightarrow> bool \<Rightarrow> world \<Rightarrow> exn + level_acc" where
  "process_level_with_multiprocessing fromstring decode env current_prefixes save_dir workers
       retries level progress_callback st =
     (if current_prefixes = [] then Inr (level_start st)
      else (let download_tasks = map (\<lambda>pfx. (pfx, save_dir, retries)) current_prefixes in
            if workers < 1 then Inl ValueError
            else Inr (collect_results fromstring decode env progress_callback download_tasks
                        (level_start st))))"

text \<open>
  The command line of \<^verbatim>\<open>download_xml_multiprocess.py\<close>, and what its \<^verbatim>\<open>main\<close> takes from
  outside: the XML parser, UTF-8 decoding, the order in which \<^verbatim>\<open>list(set(...))\<close>
  lists a set, the world that the worker for a prefix meets in the iteration
  \<^verbatim>\<open>level\<close> of the loop, and the outcome of \<^verbatim>\<open>args.save_dir.mkdir\<close>.
\<close>

record xml_args =
  args_workers :: int
  args_max_depth :: int
  args_retries :: int
  args_save_dir :: path
  args_start_prefix :: string

record xml_env =
  et_fromstring :: "string \<Rightarrow> string + element"
  decode_utf8 :: "string \<Rightarrow> exn + string"
  list_set :: "pfx list \<Rightarrow> pfx list"
  level_io :: "int \<Rightarrow> pfx \<Rightarrow> io"
  save_dir_mkdir_exn :: "exn option"

text \<open>
  The run-wide variables of \<^verbatim>\<open>main\<close>: the two counters, and the records that the
  logger received. \<open>levels\<close> is not a variable of the source: it keeps, for every
  call of \<^verbatim>\<open>process_level_with_multiprocessing\<close>, the loop variable \<^verbatim>\<open>level\<close>, the
  deduplicated list that was passed, the URLs requested during the call and the
  locals of the call at its return.
\<close>

record level_rec =
  depth :: int
  frontier :: "pfx list"
  requested :: "string list"
  outcome :: level_acc

record crawl =
  cworld :: world
  total_successful :: nat
  total_failed :: nat
  log :: "log_msg list"
  levels :: "level_rec list"

text \<open>
  The loop \<^verbatim>\<open>for level in range(args.max_depth)\<close> of \<^verbatim>\<open>main\<close>, entered with the value
  of \<^verbatim>\<open>level\<close> and of \<^verbatim>\<open>current_prefixes\<close>. The call passes \<^verbatim>\<open>level + 1\<close> for printing.
\<close>

function main_loop :: "xml_env \<Rightarrow> xml_args \<Rightarrow> int \<Rightarrow> pfx list \<Rightarrow> crawl \<Rightarrow> ending \<times> crawl" where
  "main_loop env args level current_prefixes c =
     (if \<not> level < args_max_depth args then (Returned, c)
      else if current_prefixes = [] then (Returned, c)
      else (let current_prefixes' = list_set env current_prefixes in
            case process_level_with_multiprocessing (et_fromstring env) (decode_utf8 env)
                   (level_io env level) current_prefixes' (args_save_dir args) (args_workers args)
                   (args_retries args) (level + 1) True (cworld c) of
              Inl e \<Rightarrow> (Uncaught e, c)
            | Inr a \<Rightarrow>
                (let c' = c\<lparr>cworld := lworld a,
                            total_successful := total_successful c + successful a,
                            total_failed := total_failed c + failed a,
                            log := log c @ messages a,
                            levels := levels c @
                              [\<lparr>depth = level, frontier = current_prefixes',
                                requested = drop (length (gets (cworld c))) (gets (lworld a)),
                                outcome = a\<rparr>]\<rparr>
                 in if next_level_prefixes a = [] then (Returned, c')
                    else main_loop env args (level + 1) (next_level_prefixes a) c')))"
  by pat_completeness auto
termination
  by (relation "measure (\<lambda>(env, args, level, current_prefixes, c). nat (args_max_depth args - level))") auto

declare main_loop.simps [simp del]

definition crawl_start :: "world \<Rightarrow> crawl" where
  "crawl_start st = \<lparr>cworld = st, total_successful = 0, total_failed = 0, log = [], levels = []\<rparr>"

definition xml_main :: "xml_env \<Rightarrow> xml_args \<Rightarrow> world \<Rightarrow> ending \<times> crawl" where
  "xml_main env args st =
     (case save_dir_mkdir_exn env of
        Some e \<Rightarrow> (Uncaught e, crawl_start st)
      | None \<Rightarrow> main_loop env args 0 [Some (args_start_prefix args)] (crawl_start st))"

section \<open>Recursive crawler\<close>

text \<open>
  \<^verbatim>\<open>send_xml_request_with_retry\<close> of \<^verbatim>\<open>utils.py\<close>: one \<^verbatim>\<open>session.get\<close> through the
  retrying adapter, \<^verbatim>\<open>raise_for_status\<close>, and \<^verbatim>\<open>response.content\<close>.
\<close>

definition send_xml_request_with_retry :: "io \<Rightarrow> string \<Rightarrow> world \<Rightarrow> (exn + string) \<times> world" where
  "send_xml_request_with_retry w url st =
     (let st1 = st\<lparr>gets := gets st @ [url]\<rparr> in
      case get_result w of
        Inl e \<Rightarrow> (Inl e, st1)
      | Inr response \<Rightarrow> (content response, st1))"

text \<open>\<^verbatim>\<open>save_xml_file\<close>: every exception is caught and turned into \<^verbatim>\<open>False\<close>.\<close>

definition save_xml_file :: "io \<Rightarrow> string \<Rightarrow> path \<Rightarrow> world \<Rightarrow> bool \<times> world" where
  "save_xml_file w xml_content file_path st =
     (case open_exn w of
        Some e \<Rightarrow> (False, st)
      | None \<Rightarrow>
          (case write_exn w of
             Some e \<Rightarrow> (False, st\<lparr>files := (files st)(file_path \<mapsto> [])\<rparr>)
           | None \<Rightarrow> (True, st\<lparr>files := (files st)(file_path \<mapsto> xml_content)\<rparr>)))"

text \<open>
  \<^verbatim>\<open>save_error_url\<close> on \<^verbatim>\<open>save_dir / "errors.log"\<close>: the file is opened with mode
  \<^verbatim>\<open>"a"\<close> when it is there and \<^verbatim>\<open>"w"\<close> when it is not, and one line is written. The
  file is the list of its lines, \<open>None\<close> while it does not exist; the line
  \<^verbatim>\<open>f"... {prefix}: {e}"\<close> is kept as the pair of the prefix and the exception.
  Nothing guards \<^verbatim>\<open>open\<close> and \<^verbatim>\<open>write\<close>: the result holds the exception that leaves
  the function, if any, and the file as it is then. When \<^verbatim>\<open>open\<close> raises the file is
  untouched; when \<^verbatim>\<open>write\<close> raises the line is not in the file, which mode \<^verbatim>\<open>"w"\<close> has
  created by then.
\<close>

type_synonym error_line = "string \<times> exn"

definition save_error_url ::
  "io \<Rightarrow> error_line \<Rightarrow> error_line list option \<Rightarrow> exn option \<times> error_line list option" where
  "save_error_url w write_text loacl =
     (case loacl of
        Some lines \<Rightarrow>
          (case log_open_exn w of
             Some e \<Rightarrow> (Some e, Some lines)
           | None \<Rightarrow>
               (case log_write_exn w of
                  Some e \<Rightarrow> (Some e, Some lines)
                | None \<Rightarrow> (None, Some (lines @ [write_text]))))
      | None \<Rightarrow>
          (case log_open_exn w of
             Some e \<Rightarrow> (Some e, None)
           | None \<Rightarrow>
               (case log_write_exn w of
                  Some e \<Rightarrow> (Some e, Some [])
                | None \<Rightarrow> (None, Some [write_text]))))"

text \<open>
  The state of a run of the recursive crawler: the files and requests, and
  \<^verbatim>\<open>errors.log\<close>. \<open>visited\<close> and \<open>fetched\<close> are not variables of the source: \<open>visited\<close>
  lists the calls that got past the depth test, with \<^verbatim>\<open>current_depth\<close>, and
  \<open>fetched\<close> the calls of \<^verbatim>\<open>send_xml_request_with_retry\<close>, with \<^verbatim>\<open>current_depth\<close>, the
  prefix and the exception raised, if any. The call that is the \<open>n\<close>-th to get past
  the depth test meets the world \<open>rec_io env n\<close>.
\<close>

record rcrawl =
  rworld :: world
  visited :: "(int \<times> pfx) list"
  fetched :: "(int \<times> string \<times> exn option) list"
  errors_log :: "error_line list option"

record rec_env =
  rec_fromstring :: "string \<Rightarrow> string + element"
  rec_io :: "nat \<Rightarrow> io"

text \<open>
  The \<^verbatim>\<open>except\<close> clause of \<^verbatim>\<open>process_s3_directory_recursive\<close>: the line is written to
  \<^verbatim>\<open>errors.log\<close>; what \<^verbatim>\<open>save_error_url\<close> raises leaves the clause and the call.
\<close>

definition handle_failure :: "io \<Rightarrow> string \<Rightarrow> exn \<Rightarrow> rcrawl \<Rightarrow> exn option \<times> rcrawl" where
  "handle_failure w pfx e c =
     (case save_error_url w (pfx, e) (errors_log c) of
        (raised, lg) \<Rightarrow> (raised, c\<lparr>errors_log := lg\<rparr>))"

text \<open>
  \<^verbatim>\<open>process_s3_directory_recursive\<close>. The result is \<open>Some e\<close> when the call raises \<open>e\<close>
  and \<open>None\<close> when it returns. \<^verbatim>\<open>save_dir / prefix\<close> and \<^verbatim>\<open>mkdir\<close> stand before the
  \<^verbatim>\<open>try\<close>, so what they raise leaves the call; the request, the parsing and the loop
  over the children stand inside it, so what they raise ends the loop and is
  handed to the \<^verbatim>\<open>except\<close> clause with the prefix of this call.
\<close>

function process_s3_directory_recursive ::
    "rec_env \<Rightarrow> string \<Rightarrow> pfx \<Rightarrow> path \<Rightarrow> int \<Rightarrow> int \<Rightarrow> rcrawl \<Rightarrow> exn option \<times> rcrawl"
  and process_children ::
    "rec_env \<Rightarrow> string \<Rightarrow> pfx list \<Rightarrow> path \<Rightarrow> int \<Rightarrow> int \<Rightarrow> rcrawl \<Rightarrow> exn option \<times> rcrawl"
where
  "process_s3_directory_recursive env s3_base_url pfx save_dir max_depth current_depth c =
     (if current_depth \<ge> max_depth then (None, c)
      else
       (let w = rec_io env (length (visited c));
            c0 = c\<lparr>visited := visited c @ [(current_depth, pfx)]\<rparr> in
        case path_div save_dir pfx of Inl e \<Rightarrow> (Some e, c0) | Inr local_dir \<Rightarrow>
         (case mkdir_exn w of Some e \<Rightarrow> (Some e, c0) | None \<Rightarrow>
           (case
              (let full_url = s3_base_url @ the pfx in
               case send_xml_request_with_retry w full_url (rworld c0) of
                 (Inl e, st1) \<Rightarrow>
                   (Some e, c0\<lparr>rworld := st1,
                               fetched := fetched c0 @ [(current_depth, the pfx, Some e)]\<rparr>)
               | (Inr xml_content, st1) \<Rightarrow>
                   (let xml_file_path = Join local_dir (xml_filename (the pfx));
                        st2 = snd (save_xml_file w xml_content xml_file_path st1);
                        child_prefixes = get_common_prefixes (rec_fromstring env) xml_content
                    in process_children env s3_base_url child_prefixes save_dir max_depth
                         (current_depth + 1)
                         (c0\<lparr>rworld := st2,
                             fetched := fetched c0 @ [(current_depth, the pfx, None)]\<rparr>)))
            of
              (None, c') \<Rightarrow> (None, c')
            | (Some e, c') \<Rightarrow> handle_failure w (the pfx) e c'))))"
| "process_children env s3_base_url [] save_dir max_depth current_depth c = (None, c)"
| "process_children env s3_base_url (child_prefix # rest) save_dir max_depth current_depth c =
     (case process_s3_directory_recursive env s3_base_url child_prefix save_dir max_depth
             current_depth c of
        (Some e, c') \<Rightarrow> (Some e, c')
      | (None, c') \<Rightarrow> process_children env s3_base_url rest save_dir max_depth current_depth c')"
  by pat_completeness auto
termination
  by (relation "inv_image (less_than <*lex*> less_than)
        (\<lambda>x. case x of
                Inl (env, url, pfx, sd, md, d, c) \<Rightarrow> (nat (md - d), 0)
              | Inr (env, url, cs, sd, md, d, c) \<Rightarrow> (nat (md - d), Suc (length cs)))") auto

declare process_s3_directory_recursive.simps [simp del]

section \<open>Derived notions and fixtures\<close>

text \<open>
  The object keys that a listing reports: for every \<^verbatim>\<open>Contents\<close> child of the root, the
  text of its first \<^verbatim>\<open>Key\<close> child, where there is one.
\<close>

definition key_of_contents :: "element \<Rightarrow> string list" where
  "key_of_contents contents_elem =
     (case find_child contents_elem ''Key'' of
        None \<Rightarrow> []
      | Some key_elem \<Rightarrow> (case etext key_elem of None \<Rightarrow> [] | Some k \<Rightarrow> [k]))"

definition object_keys :: "element \<Rightarrow> string list" where
  "object_keys root = concat (map key_of_contents (findall root ''Contents''))"

text \<open>
  Listing documents for the examples: a tree with the directories \<^verbatim>\<open>a/\<close> and \<^verbatim>\<open>b/\<close>
  under the root, one archive under \<^verbatim>\<open>a/\<close> and one checksum file under \<^verbatim>\<open>b/\<close>; a
  listing with three kinds of key; a listing without children; a listing whose
  first \<^verbatim>\<open>Prefix\<close> element is empty and which names \<^verbatim>\<open>c/\<close> twice; and a parser that
  knows these documents by name and rejects every other text.
\<close>

definition listing :: "element list \<Rightarrow> element" where
  "listing cs = Element (s3 @ ''ListBucketResult'') None cs"

definition fx_common_prefix :: "string option \<Rightarrow> element" where
  "fx_common_prefix t = Element (s3 @ ''CommonPrefixes'') None [Element (s3 @ ''Prefix'') t []]"

definition fx_contents :: "string \<Rightarrow> element" where
  "fx_contents k = Element (s3 @ ''Contents'') None [Element (s3 @ ''Key'') (Some k) []]"

definition fixture_fromstring :: "string \<Rightarrow> string + element" where
  "fixture_fromstring s =
     (if s = ''<root/>'' then Inr (listing [fx_common_prefix (Some ''a/''), fx_common_prefix (Some ''b/'')])
      else if s = ''<a/>'' then Inr (listing [fx_contents ''a/x.zip''])
      else if s = ''<b/>'' then Inr (listing [fx_contents ''b/y.zip.CHECKSUM''])
      else if s = ''<mixed/>'' then
        Inr (listing [fx_contents ''a/x.zip'', fx_contents ''a/x.zip.CHECKSUM'',
                      fx_contents ''a/m.json''])
      else if s = ''<empty/>'' then Inr (listing [])
      else if s = ''<hole/>'' then
        Inr (listing [fx_common_prefix None, fx_common_prefix (Some ''c/''), fx_common_prefix (Some ''c/'')])
      else Inl ''syntax error'')"

definition fixture_read :: "path \<Rightarrow> exn + string" where
  "fixture_read p = (if p = Path ''m.xml'' then Inr ''<mixed/>'' else Inl FileNotFoundError)"

text \<open>
  Worlds for the examples: an empty file system without requests; a worker
  invocation in which nothing raises and the server answers with a given body; one
  in which the request raises.
\<close>

definition empty_world :: world where
  "empty_world = \<lparr>files = Map.empty, gets = []\<rparr>"

definition io_ok :: "string \<Rightarrow> io" where
  "io_ok body =
     \<lparr>mkdir_exn = None,
      get_result = Inr \<lparr>content_length = Absent, content = Inr body, chunks = [body], stream_exn = None\<rparr>,
      open_exn = None, write_exn = None, unlink_exn = None, pool_get_exn = None,
      log_open_exn = None, log_write_exn = None\<rparr>"

definition io_fail :: "exn \<Rightarrow> io" where
  "io_fail e =
     \<lparr>mkdir_exn = None, get_result = Inl e,
      open_exn = None, write_exn = None, unlink_exn = None, pool_get_exn = None,
      log_open_exn = None, log_write_exn = None\<rparr>"

text \<open>
  A run of \<^verbatim>\<open>download_zip_data.py\<close> for the examples: \<^verbatim>\<open>int\<close> knows two strings, the
  data directory holds the one listing \<^verbatim>\<open>m.xml\<close>, the user answers \<^verbatim>\<open>y\<close>.
\<close>

definition fixture_int :: "string \<Rightarrow> int option" where
  "fixture_int s = (if s = ''2024'' then Some 2024 else if s = ''4'' then Some 4 else None)"

definition fixture_zip_env :: zip_env where
  "fixture_zip_env =
     \<lparr>py_int = fixture_int, data_dir_exists = True, rglob_xml = [Path ''m.xml''],
      read_text = fixture_read, zip_fromstring = fixture_fromstring, user_input = ''y'',
      download_dir_mkdir_exn = None, urljoin = (\<lambda>base key. base @ key),
      task_io = (\<lambda>i. io_ok ''PK'')\<rparr>"

definition fixture_zip_args :: "string option \<Rightarrow> string option \<Rightarrow> zip_args" where
  "fixture_zip_args y m =
     \<lparr>arg_year = y, arg_month = m, data_dir = Path ''./data'', download_dir = Path ''./downloads'',
      arg_workers = 8, arg_retries = 3\<rparr>"

text \<open>
  The child prefixes that a listing reports: for every \<^verbatim>\<open>CommonPrefixes\<close> child of the
  root, the \<^verbatim>\<open>text\<close> of its first \<^verbatim>\<open>Prefix\<close> child, where there is one.
\<close>

definition prefix_of_common :: "element \<Rightarrow> pfx list" where
  "prefix_of_common cp_elem =
     (case find_child cp_elem ''Prefix'' of
        None \<Rightarrow> []
      | Some prefix_elem \<Rightarrow> [etext prefix_elem])"

definition child_prefixes_of :: "element \<Rightarrow> pfx list" where
  "child_prefixes_of root = concat (map prefix_of_common (findall root ''CommonPrefixes''))"

text \<open>
  The mirror file name as the specification words it: the path separators of the
  prefix replaced by the underscore and the trailing separator stripped. Defined
  from those words, for comparison with \<^const>\<open>xml_filename\<close>.
\<close>

definition claimed_xml_filename :: "string \<Rightarrow> string" where
  "claimed_xml_filename pfx =
     ''directory_'' @ replace (if endswith pfx ''/'' then butlast pfx else pfx) (CHR ''/'') (CHR ''_'')
       @ ''.xml''"

text \<open>A run of the recursive crawler for the examples: every listing is empty.\<close>

definition fixture_rec_env :: rec_env where
  "fixture_rec_env = \<lparr>rec_fromstring = fixture_fromstring, rec_io = (\<lambda>n. io_ok ''<empty/>'')\<rparr>"

definition rcrawl_start :: rcrawl where
  "rcrawl_start = \<lparr>rworld = empty_world, visited = [], fetched = [], errors_log = None\<rparr>"

text \<open>
  A download that breaks off: the server announces four bytes, two arrive, then the
  stream raises. The argument is what \<^verbatim>\<open>unlink\<close> does afterwards.
\<close>

definition io_partial :: "exn option \<Rightarrow> io" where
  "io_partial u =
     \<lparr>mkdir_exn = None,
      get_result = Inr \<lparr>content_length = Num 4, content = Inr ''PKxx'', chunks = [''PK''],
                        stream_exn = Some (RequestException ''connection reset'')\<rparr>,
      open_exn = None, write_exn = None, unlink_exn = u, pool_get_exn = None,
      log_open_exn = None, log_write_exn = None\<rparr>"

definition batch_start :: "world \<Rightarrow> batch" where
  "batch_start st = \<lparr>bworld = st, successful_downloads = 0, failed_downloads = 0, failed_files = []\<rparr>"

text \<open>A batch of three downloads, the second of which breaks off.\<close>

definition fixture_task_io :: "nat \<Rightarrow> io" where
  "fixture_task_io i = (if i = 1 then io_partial None else io_ok ''PK'')"

definition fixture_tasks :: "(string \<times> path \<times> int) list" where
  "fixture_tasks = [(''u1'', Path ''a.zip'', 3), (''u2'', Path ''b.zip'', 3), (''u3'', Path ''c.zip'', 3)]"

definition fixture_old_world :: world where
  "fixture_old_world = \<lparr>files = [Path ''a.zip'' \<mapsto> ''old''], gets = []\<rparr>"

text \<open>
  What one entry of \<open>seen\<close> contributes: the child prefixes of a successful result,
  the entry of \<^verbatim>\<open>failed_tasks\<close> of a failed one, and the message for the logger.
\<close>

definition children_of_seen :: "pfx \<times> (exn + xml_result) \<Rightarrow> pfx list" where
  "children_of_seen x =
     (case snd x of
        Inl e \<Rightarrow> []
      | Inr (success, error_msg, xml_path, child_prefixes) \<Rightarrow>
          if success then child_prefixes else [])"

definition failure_of_seen :: "pfx \<times> (exn + xml_result) \<Rightarrow> (pfx \<times> exn option) list" where
  "failure_of_seen x =
     (case snd x of
        Inl e \<Rightarrow> [(fst x, Some e)]
      | Inr (success, error_msg, xml_path, child_prefixes) \<Rightarrow>
          if success then [] else [(fst x, error_msg)])"

definition message_of_seen :: "pfx \<times> (exn + xml_result) \<Rightarrow> log_msg" where
  "message_of_seen x =
     (case snd x of
        Inl e \<Rightarrow> TaskException (fst x) e
      | Inr (success, error_msg, xml_path, child_prefixes) \<Rightarrow>
          if success then Downloaded (path_name xml_path) else DownloadFailed (fst x) error_msg)"

text \<open>
  What the coordinator gets for a task: the exception of \<^verbatim>\<open>result_async.get\<close>, or the
  tuple that the worker returns. The tuple does not depend on the files that are
  there when the worker starts.
\<close>

definition view_of ::
  "(string \<Rightarrow> string + element) \<Rightarrow> (string \<Rightarrow> exn + string) \<Rightarrow> (pfx \<Rightarrow> io)
     \<Rightarrow> pfx \<times> path \<times> int \<Rightarrow> pfx \<times> (exn + xml_result)" where
  "view_of fromstring decode env task =
     (fst task,
      case pool_get_exn (env (fst task)) of
        Some e \<Rightarrow> Inl e
      | None \<Rightarrow> Inr (fst (download_xml_worker fromstring decode (env (fst task)) empty_world task)))"

text \<open>The URLs that the worker for a prefix requests: none or one.\<close>

definition requests_of :: "io \<Rightarrow> pfx \<Rightarrow> string list" where
  "requests_of w pfx =
     (case pfx of
        None \<Rightarrow> []
      | Some p \<Rightarrow> (if mkdir_exn w = None then [S3_BASE_URL @ p] else []))"

text \<open>
  The relation between the locals of \<^verbatim>\<open>process_level_with_multiprocessing\<close> and the
  results seen so far.
\<close>

definition level_ok :: "bool \<Rightarrow> level_acc \<Rightarrow> bool" where
  "level_ok progress_callback a =
     (next_level_prefixes a = concat (map children_of_seen (seen a))
      \<and> failed_tasks a = concat (map failure_of_seen (seen a))
      \<and> messages a = (if progress_callback then map message_of_seen (seen a) else [])
      \<and> successful a + failed a = length (seen a)
      \<and> failed a = length (failed_tasks a))"

text \<open>
  A list of level records that follows the loop of \<^verbatim>\<open>main\<close> from a given value of
  \<^verbatim>\<open>level\<close> and of \<^verbatim>\<open>current_prefixes\<close>.
\<close>

fun trace_ok :: "xml_env \<Rightarrow> xml_args \<Rightarrow> int \<Rightarrow> pfx list \<Rightarrow> level_rec list \<Rightarrow> bool" where
  "trace_ok env args level current [] = True"
| "trace_ok env args level current (r # rs) =
     (depth r = level \<and> level < args_max_depth args \<and> current \<noteq> []
      \<and> frontier r = list_set env current
      \<and> seen (outcome r) =
          map (view_of (et_fromstring env) (decode_utf8 env) (level_io env level))
              (map (\<lambda>p. (p, args_save_dir args, args_retries args)) (frontier r))
      \<and> requested r = concat (map (\<lambda>p. requests_of (level_io env level p) p) (frontier r))
      \<and> level_ok True (outcome r)
      \<and> trace_ok env args (level + 1) (next_level_prefixes (outcome r)) rs)"

text \<open>
  The run-wide state \<open>c'\<close> continues \<open>c\<close> by a list of level records that follows the
  loop, and its world, log and counters are those of \<open>c\<close> extended by what the
  records hold.
\<close>

definition run_extends :: "xml_env \<Rightarrow> xml_args \<Rightarrow> int \<Rightarrow> pfx list \<Rightarrow> crawl \<Rightarrow> crawl \<Rightarrow> bool" where
  "run_extends env args level current c c' =
     (\<exists>new. levels c' = levels c @ new
        \<and> trace_ok env args level current new
        \<and> gets (cworld c') = gets (cworld c) @ concat (map requested new)
        \<and> log c' = log c @ concat (map (\<lambda>r. messages (outcome r)) new)
        \<and> total_successful c' = total_successful c + sum_list (map (\<lambda>r. successful (outcome r)) new)
        \<and> total_failed c' = total_failed c + sum_list (map (\<lambda>r. failed (outcome r)) new))"

text \<open>
  A run of the level-synchronised crawler for the examples: the root lists \<^verbatim>\<open>a/\<close> and
  \<^verbatim>\<open>b/\<close>; the request for \<^verbatim>\<open>a/\<close> fails; \<^verbatim>\<open>b/\<close> lists an empty prefix element and
  \<^verbatim>\<open>c/\<close> twice; \<^verbatim>\<open>c/\<close> is empty. \<^verbatim>\<open>list(set(...))\<close> is taken to keep the last of equal
  elements.
\<close>

definition fixture_level_io :: "int \<Rightarrow> pfx \<Rightarrow> io" where
  "fixture_level_io level p =
     (if p = Some ''data/'' then io_ok ''<root/>''
      else if p = Some ''a/'' then io_fail (RequestException ''503'')
      else if p = Some ''b/'' then io_ok ''<hole/>''
      else io_ok ''<empty/>'')"

definition fixture_xml_env :: xml_env where
  "fixture_xml_env =
     \<lparr>et_fromstring = fixture_fromstring, decode_utf8 = Inr, list_set = remdups,
      level_io = fixture_level_io, save_dir_mkdir_exn = None\<rparr>"

definition fixture_xml_args :: "int \<Rightarrow> xml_args" where
  "fixture_xml_args md =
     \<lparr>args_workers = 4, args_max_depth = md, args_retries = 3, args_save_dir = Path ''./data'',
      args_start_prefix = ''data/''\<rparr>"

text \<open>
  For the recursive crawler: what \<^verbatim>\<open>send_xml_request_with_retry\<close> returns or raises in a
  given world; whether a write to \<^verbatim>\<open>errors.log\<close> goes through in it; the lines of
  \<^verbatim>\<open>errors.log\<close>; the ledger lines that a list of requests calls for, one for each
  request that raised; the prefixes requested at a given depth, in order.
\<close>

definition fetch_outcome :: "io \<Rightarrow> exn + string" where
  "fetch_outcome w = (case get_result w of Inl e \<Rightarrow> Inl e | Inr response \<Rightarrow> content response)"

definition log_ok :: "io \<Rightarrow> bool" where
  "log_ok w = (log_open_exn w = None \<and> log_write_exn w = None)"

definition log_lines :: "error_line list option \<Rightarrow> error_line list" where
  "log_lines l = (case l of None \<Rightarrow> [] | Some ls \<Rightarrow> ls)"

definition failed_fetches :: "(int \<times> string \<times> exn option) list \<Rightarrow> error_line list" where
  "failed_fetches fs = concat (map (\<lambda>(d, p, x). case x of None \<Rightarrow> [] | Some e \<Rightarrow> [(p, e)]) fs)"


text \<open>
  The relation between the state before and after a call: requests were added, all
  at depths from \<open>lo\<close> up to but not including \<open>hi\<close>, the URLs requested are theirs,
  and \<^verbatim>\<open>errors.log\<close> kept its lines and gained new ones; where every write to
  \<^verbatim>\<open>errors.log\<close> goes through (\<open>logs\<close>), the new lines hold, in order, one for each
  request that raised.
\<close>

definition rec_extends :: "bool \<Rightarrow> string \<Rightarrow> int \<Rightarrow> int \<Rightarrow> rcrawl \<Rightarrow> rcrawl \<Rightarrow> bool" where
  "rec_extends logs url lo hi c c' =
     (\<exists>nf nl. fetched c' = fetched c @ nf
        \<and> (\<forall>(d, p, x) \<in> set nf. lo \<le> d \<and> d < hi)
        \<and> gets (rworld c') = gets (rworld c) @ map (\<lambda>(d, p, x). url @ p) nf
        \<and> log_lines (errors_log c') = log_lines (errors_log c) @ nl
        \<and> (logs \<longrightarrow> subseq (failed_fetches nf) nl))"



text \<open>
  A run of the recursive crawler for the examples: the root lists \<^verbatim>\<open>a/\<close> and \<^verbatim>\<open>b/\<close>, the
  request for \<^verbatim>\<open>a/\<close> (the second call) fails, and \<^verbatim>\<open>b/\<close> is empty.
\<close>

definition fixture_rec_tree :: rec_env where
  "fixture_rec_tree =
     \<lparr>rec_fromstring = fixture_fromstring,
      rec_io = (\<lambda>n. if n = 0 then io_ok ''<root/>''
                     else if n = 1 then io_fail (RequestException ''503'')
                     else io_ok ''<empty/>'')\<rparr>"


section \<open>Key filter: verification\<close>

lemma endswith_zip_nonempty: "endswith k ''.zip'' \<Longrightarrow> k \<noteq> []"
  by (auto simp: endswith_def)

lemma zip_not_checksum: "endswith k ''.zip'' \<Longrightarrow> \<not> endswith k ''.zip.CHECKSUM''"
  by (auto simp: endswith_def suffix_def)

lemma is_wanted_iff_zip: "is_wanted k = endswith k ''.zip''"
  using zip_not_checksum by (auto simp: is_wanted_def)

lemma zip_files_loop_eq:
  "zip_files_loop es acc = acc @ filter is_wanted (concat (map key_of_contents es))"
proof (induction es arbitrary: acc)
  case Nil
  then show ?case by simp
next
  case (Cons e es)
  show ?case
  proof (cases "find_child e ''Key''")
    case None
    then show ?thesis by (simp add: Cons.IH key_of_contents_def)
  next
    case (Some ke)
    show ?thesis
    proof (cases "etext ke")
      case None
      with Some show ?thesis by (simp add: Cons.IH key_of_contents_def truthy_def)
    next
      case (Some k)
      with \<open>find_child e ''Key'' = Some ke\<close> show ?thesis
        using endswith_zip_nonempty[of k]
        by (auto simp add: Cons.IH key_of_contents_def truthy_def is_wanted_def)
    qed
  qed
qed

lemma utils_zip_files_loop_eq:
  "utils_zip_files_loop es acc = zip_files_loop es acc"
proof (induction es arbitrary: acc)
  case Nil
  then show ?case by simp
next
  case (Cons e es)
  then show ?case
    by (simp add: is_wanted_iff_zip split: option.splits)
qed

lemma get_zip_files_from_xml_eq:
  "get_zip_files_from_xml fromstring doc =
     (case fromstring doc of Inl e \<Rightarrow> [] | Inr root \<Rightarrow> filter is_wanted (object_keys root))"
  by (simp add: get_zip_files_from_xml_def utils_zip_files_loop_eq zip_files_loop_eq
      object_keys_def split: sum.splits)

text \<open>
  C6. A key of a listing is kept by \<^verbatim>\<open>extract_zip_files_from_xml\<close> and by
  \<^verbatim>\<open>count_zip_files_in_xml\<close> exactly when it ends with \<^verbatim>\<open>.zip\<close> and does not end with
  \<^verbatim>\<open>.zip.CHECKSUM\<close>: on a file that can be read and parsed, both return the keys of
  the listing filtered by that test, in document order. In particular any key
  ending in \<^verbatim>\<open>.zip\<close> passes the test, the same key with \<^verbatim>\<open>.CHECKSUM\<close> appended does
  not, and a key ending in \<^verbatim>\<open>.json\<close> does not.
\<close>

theorem key_filter_classification:
  "(reader p = Inr doc \<and> fromstring doc = Inr root \<longrightarrow>
      extract_zip_files_from_xml reader fromstring p =
        filter (\<lambda>k. suffix ''.zip'' k \<and> \<not> suffix ''.zip.CHECKSUM'' k) (object_keys root)
    \<and> count_zip_files_in_xml reader fromstring p =
        (p, length (filter (\<lambda>k. suffix ''.zip'' k \<and> \<not> suffix ''.zip.CHECKSUM'' k) (object_keys root)),
         filter (\<lambda>k. suffix ''.zip'' k \<and> \<not> suffix ''.zip.CHECKSUM'' k) (object_keys root), None))
   \<and> is_wanted (key @ ''.zip'')
   \<and> \<not> is_wanted (key @ ''.zip'' @ ''.CHECKSUM'')
   \<and> \<not> is_wanted (key @ ''.json'')"
proof -
  have w: "is_wanted = (\<lambda>k. suffix ''.zip'' k \<and> \<not> suffix ''.zip.CHECKSUM'' k)"
    by (rule ext) (simp add: is_wanted_def endswith_def)
  have a: "is_wanted (key @ ''.zip'')"
    by (simp add: is_wanted_iff_zip endswith_def suffix_def)
  have b: "\<not> is_wanted (key @ ''.zip'' @ ''.CHECKSUM'')"
    by (simp add: is_wanted_def endswith_def suffix_def)
  have c: "\<not> is_wanted (key @ ''.json'')"
    by (auto simp add: is_wanted_def endswith_def suffix_def)
  show ?thesis using a b c
    by (auto simp: extract_zip_files_from_xml_def count_zip_files_in_xml_def zip_files_loop_eq
        object_keys_def w Let_def)
qed

lemma fixture_mixed_keys:
  "object_keys (listing [fx_contents ''a/x.zip'', fx_contents ''a/x.zip.CHECKSUM'',
                      fx_contents ''a/m.json'']) = [''a/x.zip'', ''a/x.zip.CHECKSUM'', ''a/m.json'']"
  by (simp add: object_keys_def listing_def fx_contents_def findall_def key_of_contents_def find_child_def)

theorem key_filter_classification_witness:
  "fixture_read (Path ''m.xml'') = Inr ''<mixed/>''
   \<and> fixture_fromstring ''<mixed/>'' =
       Inr (listing [fx_contents ''a/x.zip'', fx_contents ''a/x.zip.CHECKSUM'', fx_contents ''a/m.json''])
   \<and> extract_zip_files_from_xml fixture_read fixture_fromstring (Path ''m.xml'') = [''a/x.zip'']
   \<and> count_zip_files_in_xml fixture_read fixture_fromstring (Path ''m.xml'') =
        (Path ''m.xml'', 1, [''a/x.zip''], None)
   \<and> is_wanted ''a/x.zip'' \<and> \<not> is_wanted ''a/x.zip.CHECKSUM'' \<and> \<not> is_wanted ''a/m.json''"
  using key_filter_classification[of fixture_read "Path ''m.xml''" "''<mixed/>''" fixture_fromstring
      "listing [fx_contents ''a/x.zip'', fx_contents ''a/x.zip.CHECKSUM'', fx_contents ''a/m.json'']"
      "''a/x''"]
    key_filter_classification[of fixture_read "Path ''m.xml''" "''<mixed/>''" fixture_fromstring
      "listing [fx_contents ''a/x.zip'', fx_contents ''a/x.zip.CHECKSUM'', fx_contents ''a/m.json'']"
      "''a/m''"]
  by (simp add: fixture_read_def fixture_fromstring_def fixture_mixed_keys suffix_to_prefix)

section \<open>Date filter and command line: verification\<close>

lemma filter_files_loop_eq:
  "filter_files_loop pat ks acc = acc @ filter (sublist pat) ks"
  by (induction ks arbitrary: acc) auto

lemma str_nat_small: "n < 10 \<Longrightarrow> str_nat n = [char_of (48 + n)]"
  by simp

lemma length_str_nat_two: "10 \<le> n \<Longrightarrow> n < 100 \<Longrightarrow> length (str_nat n) = 2"
proof -
  assume a: "10 \<le> n" "n < 100"
  then have "n div 10 < 10" by simp
  then have "str_nat (n div 10) = [char_of (48 + n div 10)]" by (rule str_nat_small)
  with a show ?thesis by (subst str_nat.simps) simp
qed

lemma length_format_02d: "1 \<le> m \<Longrightarrow> m \<le> 12 \<Longrightarrow> length (format_02d m) = 2"
proof -
  assume a: "1 \<le> m" "m \<le> 12"
  show ?thesis
  proof (cases "nat m < 10")
    case True
    with a show ?thesis by (simp add: format_02d_def Let_def)
  next
    case False
    with a have "length (str_nat (nat m)) = 2" by (intro length_str_nat_two) auto
    with a show ?thesis by (simp add: format_02d_def Let_def del: str_nat.simps)
  qed
qed

lemma zfill_two: "length s = 2 \<Longrightarrow> zfill s 2 = s"
  by (simp add: zfill_def)

text \<open>
  C7. When a year and a month are given (both non-empty), \<^verbatim>\<open>filter_files_by_date\<close>
  keeps a key exactly when it contains the text \<^verbatim>\<open>year-month\<close>, the month filled with
  zeros on the left to two characters (a one-digit month \<^verbatim>\<open>d\<close> becomes \<^verbatim>\<open>0d\<close>, a
  two-character month is taken as it is). \<^verbatim>\<open>main\<close> passes the year as typed and the
  month formatted with \<^verbatim>\<open>02d\<close>. When exactly one of year and month is given,
  \<^verbatim>\<open>main\<close> ends with \<^verbatim>\<open>sys.exit(1)\<close> before any file is read and before any request:
  the world is untouched and the exit status is not zero.
\<close>

theorem date_filter_and_usage_error:
  "(year \<noteq> [] \<and> month \<noteq> [] \<longrightarrow>
      filter_files_by_date zip_files (Some year) (Some month) =
        filter (sublist (year @ ''-'' @ zfill month 2)) zip_files)
   \<and> (d \<noteq> CHR ''+'' \<and> d \<noteq> CHR ''-'' \<longrightarrow> zfill [d] 2 = [CHR ''0'', d])
   \<and> (length month = 2 \<longrightarrow> zfill month 2 = month)
   \<and> (year \<noteq> [] \<and> month \<noteq> [] \<and> to_int year = Some y \<and> to_int month = Some m \<and> 1 \<le> m \<and> m \<le> 12 \<longrightarrow>
        validate_args to_int (Some year) (Some month) = Inr (Some year, Some (format_02d m))
        \<and> filter_files_by_date zip_files (Some year) (Some (format_02d m)) =
            filter (sublist (year @ ''-'' @ format_02d m)) zip_files)
   \<and> (truthy (arg_year args) \<noteq> truthy (arg_month args) \<longrightarrow>
        zip_main env args st =
          (Exit 1, \<lparr>bworld = st, successful_downloads = 0, failed_downloads = 0, failed_files = []\<rparr>)
        \<and> exit_status (fst (zip_main env args st)) \<noteq> 0
        \<and> gets (bworld (snd (zip_main env args st))) = gets st)"
proof -
  have a: "year \<noteq> [] \<and> month \<noteq> [] \<longrightarrow>
      filter_files_by_date zip_files (Some year) (Some month) =
        filter (sublist (year @ ''-'' @ zfill month 2)) zip_files"
    by (simp add: filter_files_by_date_def truthy_def filter_files_loop_eq Let_def)
  have b: "d \<noteq> CHR ''+'' \<and> d \<noteq> CHR ''-'' \<longrightarrow> zfill [d] 2 = [CHR ''0'', d]"
    by (simp add: zfill_def)
  have c: "length month = 2 \<longrightarrow> zfill month 2 = month"
    by (simp add: zfill_two)
  have d: "year \<noteq> [] \<and> month \<noteq> [] \<and> to_int year = Some y \<and> to_int month = Some m \<and> 1 \<le> m \<and> m \<le> 12 \<longrightarrow>
        validate_args to_int (Some year) (Some month) = Inr (Some year, Some (format_02d m))
        \<and> filter_files_by_date zip_files (Some year) (Some (format_02d m)) =
            filter (sublist (year @ ''-'' @ format_02d m)) zip_files"
  proof (intro impI conjI)
    assume h: "year \<noteq> [] \<and> month \<noteq> [] \<and> to_int year = Some y \<and> to_int month = Some m \<and> 1 \<le> m \<and> m \<le> 12"
    then show "validate_args to_int (Some year) (Some month) = Inr (Some year, Some (format_02d m))"
      by (simp add: validate_args_def truthy_def)
    from h have l: "length (format_02d m) = 2" by (simp add: length_format_02d)
    then have ne: "format_02d m \<noteq> []" by auto
    from h ne l show "filter_files_by_date zip_files (Some year) (Some (format_02d m)) =
            filter (sublist (year @ ''-'' @ format_02d m)) zip_files"
      by (simp add: filter_files_by_date_def truthy_def filter_files_loop_eq Let_def zfill_two)
  qed
  have e: "truthy (arg_year args) \<noteq> truthy (arg_month args) \<longrightarrow>
        zip_main env args st =
          (Exit 1, \<lparr>bworld = st, successful_downloads = 0, failed_downloads = 0, failed_files = []\<rparr>)
        \<and> exit_status (fst (zip_main env args st)) \<noteq> 0
        \<and> gets (bworld (snd (zip_main env args st))) = gets st"
  proof
    assume h: "truthy (arg_year args) \<noteq> truthy (arg_month args)"
    then have v: "validate_args (py_int env) (arg_year args) (arg_month args) = Inl 1"
      by (auto simp: validate_args_def)
    then have m: "zip_main env args st =
          (Exit 1, \<lparr>bworld = st, successful_downloads = 0, failed_downloads = 0, failed_files = []\<rparr>)"
      by (simp add: zip_main_def Let_def)
    then show "zip_main env args st =
          (Exit 1, \<lparr>bworld = st, successful_downloads = 0, failed_downloads = 0, failed_files = []\<rparr>)
        \<and> exit_status (fst (zip_main env args st)) \<noteq> 0
        \<and> gets (bworld (snd (zip_main env args st))) = gets st"
      by (simp add: exit_status_def)
  qed
  from a b c d e show ?thesis by blast
qed

lemma format_02d_4: "format_02d 4 = ''04''"
  by code_simp

lemma sublist_2024_04: "sublist ''2024-04'' ''k/BTC-1m-2024-04.zip''"
  by code_simp

lemma sublist_2024_05: "\<not> sublist ''2024-04'' ''k/BTC-1m-2024-05.zip''"
  by code_simp

theorem date_filter_and_usage_error_witness:
  "''2024'' \<noteq> [] \<and> ''4'' \<noteq> []
   \<and> filter_files_by_date [''k/BTC-1m-2024-04.zip'', ''k/BTC-1m-2024-05.zip''] (Some ''2024'') (Some ''4'')
       = [''k/BTC-1m-2024-04.zip'']
   \<and> zfill ''4'' 2 = ''04''
   \<and> fixture_int ''2024'' = Some 2024 \<and> fixture_int ''4'' = Some 4
   \<and> validate_args fixture_int (Some ''2024'') (Some ''4'') = Inr (Some ''2024'', Some ''04'')
   \<and> filter_files_by_date [''k/BTC-1m-2024-04.zip'', ''k/BTC-1m-2024-05.zip''] (Some ''2024'') (Some ''04'')
       = [''k/BTC-1m-2024-04.zip'']
   \<and> truthy (arg_year (fixture_zip_args (Some ''2024'') None))
       \<noteq> truthy (arg_month (fixture_zip_args (Some ''2024'') None))
   \<and> zip_main fixture_zip_env (fixture_zip_args (Some ''2024'') None) empty_world =
       (Exit 1, \<lparr>bworld = empty_world, successful_downloads = 0, failed_downloads = 0, failed_files = []\<rparr>)
   \<and> zip_main fixture_zip_env (fixture_zip_args None (Some ''4'')) empty_world =
       (Exit 1, \<lparr>bworld = empty_world, successful_downloads = 0, failed_downloads = 0, failed_files = []\<rparr>)"
  using date_filter_and_usage_error[of "''2024''" "''4''"
          "[''k/BTC-1m-2024-04.zip'', ''k/BTC-1m-2024-05.zip'']" "CHR ''4''" fixture_int 2024 4
          "fixture_zip_args (Some ''2024'') None" fixture_zip_env empty_world]
        date_filter_and_usage_error[of "''2024''" "''4''"
          "[''k/BTC-1m-2024-04.zip'', ''k/BTC-1m-2024-05.zip'']" "CHR ''4''" fixture_int 2024 4
          "fixture_zip_args None (Some ''4'')" fixture_zip_env empty_world]
  by (simp add: fixture_int_def fixture_zip_args_def truthy_def format_02d_4
       sublist_2024_04 sublist_2024_05)

section \<open>Listing parser: verification\<close>

lemma common_prefixes_loop_eq:
  "common_prefixes_loop es acc = acc @ concat (map prefix_of_common es)"
  by (induction es arbitrary: acc) (auto simp: prefix_of_common_def split: option.splits)

lemma get_common_prefixes_eq:
  "get_common_prefixes fromstring doc =
     (case fromstring doc of Inl e \<Rightarrow> [] | Inr root \<Rightarrow> child_prefixes_of root)"
  by (simp add: get_common_prefixes_def common_prefixes_loop_eq child_prefixes_of_def
      split: sum.splits)

lemma download_xml_worker_ok:
  assumes "mkdir_exn w = None" "get_result w = Inr resp" "content resp = Inr body"
    "open_exn w = None" "write_exn w = None" "decode body = Inr doc"
  shows "download_xml_worker fromstring decode w st (Some p, sd, r) =
           ((True, None, Join (Join sd p) (xml_filename p), get_common_prefixes fromstring doc),
            st\<lparr>gets := gets st @ [S3_BASE_URL @ p],
               files := (files st)(Join (Join sd p) (xml_filename p) \<mapsto> body)\<rparr>)"
  using assms
  by (simp add: download_xml_worker_def download_xml_body_def path_div_def Let_def)

lemma download_xml_worker_none:
  "download_xml_worker fromstring decode w st (None, sd, r) =
     ((False, Some TypeError, Path [], []), st)"
  by (simp add: download_xml_worker_def download_xml_body_def path_div_def)

lemma download_xml_worker_success:
  assumes "download_xml_worker fromstring decode w st (Some p, sd, r) = ((True, err, xp, ch), st')"
  shows "xp = Join (Join sd p) (xml_filename p) \<and> (\<exists>body. files st' = (files st)(xp \<mapsto> body))
         \<and> gets st' = gets st @ [S3_BASE_URL @ p]"
  using assms
  by (auto simp: download_xml_worker_def download_xml_body_def path_div_def Let_def
      split: option.splits sum.splits)

text \<open>
  C5 (amended). For every malformed listing document \<^verbatim>\<open>get_common_prefixes\<close>,
  \<^verbatim>\<open>get_zip_files_from_xml\<close> and \<^verbatim>\<open>extract_zip_files_from_xml\<close> catch the parse error
  and return the empty list: nothing is raised, the prefix contributes no children
  and no keys, and the value returned carries no trace of the error, so that the
  worker of the crawler reports the prefix as a success without children. Only
  \<^verbatim>\<open>count_zip_files_in_xml\<close> returns the error to its caller. For every well-formed
  document without \<^verbatim>\<open>CommonPrefixes\<close> (without \<^verbatim>\<open>Contents\<close>) elements the result is
  the empty list of children (of keys), and \<^verbatim>\<open>count_zip_files_in_xml\<close> returns no
  error.
\<close>

theorem parse_error_handling:
  "(fromstring doc = Inl m \<longrightarrow>
       get_common_prefixes fromstring doc = []
     \<and> get_zip_files_from_xml fromstring doc = []
     \<and> (reader p = Inr doc \<longrightarrow>
          extract_zip_files_from_xml reader fromstring p = []
        \<and> count_zip_files_in_xml reader fromstring p = (p, 0, [], Some (ParseError m)))
     \<and> (mkdir_exn w = None \<and> get_result w = Inr resp \<and> content resp = Inr body
        \<and> open_exn w = None \<and> write_exn w = None \<and> decode body = Inr doc \<longrightarrow>
          fst (download_xml_worker fromstring decode w st (Some pf, sd, r)) =
            (True, None, Join (Join sd pf) (xml_filename pf), [])))
   \<and> (fromstring doc = Inr root \<and> findall root ''CommonPrefixes'' = [] \<longrightarrow>
       get_common_prefixes fromstring doc = [])
   \<and> (fromstring doc = Inr root \<and> findall root ''Contents'' = [] \<longrightarrow>
       get_zip_files_from_xml fromstring doc = []
     \<and> (reader p = Inr doc \<longrightarrow>
          extract_zip_files_from_xml reader fromstring p = []
        \<and> count_zip_files_in_xml reader fromstring p = (p, 0, [], None)))"
proof -
  have a: "fromstring doc = Inl m \<longrightarrow>
       get_common_prefixes fromstring doc = []
     \<and> get_zip_files_from_xml fromstring doc = []
     \<and> (reader p = Inr doc \<longrightarrow>
          extract_zip_files_from_xml reader fromstring p = []
        \<and> count_zip_files_in_xml reader fromstring p = (p, 0, [], Some (ParseError m)))"
    by (simp add: get_common_prefixes_def get_zip_files_from_xml_def
        extract_zip_files_from_xml_def count_zip_files_in_xml_def)
  have b: "fromstring doc = Inl m \<longrightarrow>
      (mkdir_exn w = None \<and> get_result w = Inr resp \<and> content resp = Inr body
        \<and> open_exn w = None \<and> write_exn w = None \<and> decode body = Inr doc \<longrightarrow>
          fst (download_xml_worker fromstring decode w st (Some pf, sd, r)) =
            (True, None, Join (Join sd pf) (xml_filename pf), []))"
    by (simp add: download_xml_worker_ok get_common_prefixes_def)
  have c: "fromstring doc = Inr root \<and> findall root ''CommonPrefixes'' = [] \<longrightarrow>
       get_common_prefixes fromstring doc = []"
    by (simp add: get_common_prefixes_def)
  have d: "fromstring doc = Inr root \<and> findall root ''Contents'' = [] \<longrightarrow>
       get_zip_files_from_xml fromstring doc = []
     \<and> (reader p = Inr doc \<longrightarrow>
          extract_zip_files_from_xml reader fromstring p = []
        \<and> count_zip_files_in_xml reader fromstring p = (p, 0, [], None))"
    by (simp add: get_zip_files_from_xml_def
        extract_zip_files_from_xml_def count_zip_files_in_xml_def)
  from a b c d show ?thesis by blast
qed

lemma fixture_malformed: "fixture_fromstring ''<'' = Inl ''syntax error''"
  by (simp add: fixture_fromstring_def)

lemma fixture_empty: "fixture_fromstring ''<empty/>'' = Inr (listing [])"
  by (simp add: fixture_fromstring_def)

text \<open>
  The claim as stated asks for a parse error that the caller can tell from a
  successful parse. A malformed document and a well-formed listing without children
  give the same return value, in the parser and in the worker.
\<close>

theorem parse_error_not_reported_counterexample:
  "fixture_fromstring ''<'' = Inl ''syntax error''
   \<and> fixture_fromstring ''<empty/>'' = Inr (listing [])
   \<and> get_common_prefixes fixture_fromstring ''<'' = get_common_prefixes fixture_fromstring ''<empty/>''
   \<and> get_zip_files_from_xml fixture_fromstring ''<'' = get_zip_files_from_xml fixture_fromstring ''<empty/>''
   \<and> fst (download_xml_worker fixture_fromstring Inr (io_ok ''<'') empty_world (Some ''a/'', Path ''./data'', 3))
       = fst (download_xml_worker fixture_fromstring Inr (io_ok ''<empty/>'') empty_world (Some ''a/'', Path ''./data'', 3))
   \<and> fst (fst (download_xml_worker fixture_fromstring Inr (io_ok ''<'') empty_world
                 (Some ''a/'', Path ''./data'', 3)))"
  by (simp add: fixture_malformed fixture_empty get_common_prefixes_def get_zip_files_from_xml_def
      listing_def findall_def download_xml_worker_ok[where resp="\<lparr>content_length = Absent, content = Inr ''<'', chunks = [''<''], stream_exn = None\<rparr>" and body="''<''" and doc ="''<''"]
      download_xml_worker_ok[where resp="\<lparr>content_length = Absent, content = Inr ''<empty/>'', chunks = [''<empty/>''], stream_exn = None\<rparr>" and body="''<empty/>''" and doc ="''<empty/>''"] io_ok_def)

theorem parse_error_handling_witness:
  "fixture_fromstring ''<'' = Inl ''syntax error''
   \<and> get_common_prefixes fixture_fromstring ''<'' = []
   \<and> get_zip_files_from_xml fixture_fromstring ''<'' = []
   \<and> mkdir_exn (io_ok ''<'') = None
   \<and> get_result (io_ok ''<'') =
        Inr \<lparr>content_length = Absent, content = Inr ''<'', chunks = [''<''], stream_exn = None\<rparr>
   \<and> open_exn (io_ok ''<'') = None \<and> write_exn (io_ok ''<'') = None
   \<and> fst (download_xml_worker fixture_fromstring Inr (io_ok ''<'') empty_world
             (Some ''a/'', Path ''./data'', 3)) =
        (True, None, Join (Join (Path ''./data'') ''a/'') (xml_filename ''a/''), [])
   \<and> fixture_fromstring ''<empty/>'' = Inr (listing [])
   \<and> findall (listing []) ''CommonPrefixes'' = []
   \<and> findall (listing []) ''Contents'' = []
   \<and> get_common_prefixes fixture_fromstring ''<empty/>'' = []
   \<and> get_zip_files_from_xml fixture_fromstring ''<empty/>'' = []
   \<and> count_zip_files_in_xml (\<lambda>p. Inr ''<'') fixture_fromstring (Path ''bad.xml'') =
        (Path ''bad.xml'', 0, [], Some (ParseError ''syntax error''))
   \<and> count_zip_files_in_xml (\<lambda>p. Inr ''<empty/>'') fixture_fromstring (Path ''e.xml'') =
        (Path ''e.xml'', 0, [], None)"
  using parse_error_handling[of fixture_fromstring "''<''" "''syntax error''" "\<lambda>p. Inr ''<''"
          "Path ''bad.xml''" "io_ok ''<''"
          "\<lparr>content_length = Absent, content = Inr ''<'', chunks = [''<''], stream_exn = None\<rparr>"
          "''<''" Inr empty_world "''a/''" "Path ''./data''" 3 "listing []"]
        parse_error_handling[of fixture_fromstring "''<empty/>''" "''syntax error''" "\<lambda>p. Inr ''<empty/>''"
          "Path ''e.xml''" "io_ok ''<''"
          "\<lparr>content_length = Absent, content = Inr ''<'', chunks = [''<''], stream_exn = None\<rparr>"
          "''<''" Inr empty_world "''a/''" "Path ''./data''" 3 "listing []"]
  by (simp add: fixture_malformed fixture_empty listing_def findall_def io_ok_def)

section \<open>Mirror file name: verification\<close>

lemma replace_no_sep: "CHR ''/'' \<notin> set (replace s (CHR ''/'') (CHR ''_''))"
  by (auto simp: replace_def)

lemma set_rstrip: "set (rstrip s c) \<subseteq> set s"
proof -
  have "set (dropWhile (\<lambda>x. x = c) (rev s)) \<subseteq> set (rev s)" by (rule set_dropWhileD[THEN subsetI])
  then show ?thesis by (simp add: rstrip_def)
qed

lemma xml_filename_no_sep: "CHR ''/'' \<notin> set (xml_filename p)"
  using set_rstrip[of "replace p (CHR ''/'') (CHR ''_'')" "CHR ''_''"] replace_no_sep[of p]
  by (auto simp: xml_filename_def)

lemma rstrip_append_replicate:
  "enc = [] \<or> last enc \<noteq> c \<Longrightarrow> rstrip (enc @ replicate n c) c = enc"
proof -
  assume a: "enc = [] \<or> last enc \<noteq> c"
  have "dropWhile (\<lambda>x. x = c) (replicate n c @ rev enc) = dropWhile (\<lambda>x. x = c) (rev enc)"
    by (induction n) auto
  moreover have "dropWhile (\<lambda>x. x = c) (rev enc) = rev enc"
    using a by (cases enc rule: rev_cases) auto
  ultimately show ?thesis by (simp add: rstrip_def)
qed

lemma rstrip_decompose:
  "\<exists>n. s = rstrip s c @ replicate n c"
proof -
  have "rev s = takeWhile (\<lambda>x. x = c) (rev s) @ dropWhile (\<lambda>x. x = c) (rev s)" by simp
  moreover have "takeWhile (\<lambda>x. x = c) (rev s) = replicate (length (takeWhile (\<lambda>x. x = c) (rev s))) c"
    by (metis (mono_tags, lifting) replicate_eqI set_takeWhileD)
  ultimately have "rev s = replicate (length (takeWhile (\<lambda>x. x = c) (rev s))) c @ dropWhile (\<lambda>x. x = c) (rev s)"
    by simp
  then have "s = rev (dropWhile (\<lambda>x. x = c) (rev s)) @ replicate (length (takeWhile (\<lambda>x. x = c) (rev s))) c"
    by (metis rev_append rev_replicate rev_rev_ident)
  then show ?thesis unfolding rstrip_def by blast
qed

lemma rstrip_last: "rstrip s c = [] \<or> last (rstrip s c) \<noteq> c"
proof (cases "dropWhile (\<lambda>x. x = c) (rev s)")
  case Nil
  then show ?thesis by (simp add: rstrip_def)
next
  case (Cons a as)
  then have "a \<noteq> c" using hd_dropWhile[of "\<lambda>x. x = c" "rev s"] by auto
  with Cons show ?thesis by (simp add: rstrip_def)
qed

lemma replace_append: "replace (a @ b) x y = replace a x y @ replace b x y"
  by (simp add: replace_def)

lemma xml_filename_plain:
  assumes "q \<noteq> []" "last q \<noteq> CHR ''/''" "last q \<noteq> CHR ''_''"
  shows "xml_filename (q @ ''/'') = ''directory_'' @ replace q (CHR ''/'') (CHR ''_'') @ ''.xml''"
proof -
  have r: "replace (q @ ''/'') (CHR ''/'') (CHR ''_'') = replace q (CHR ''/'') (CHR ''_'') @ replicate 1 (CHR ''_'')"
    by (simp add: replace_def)
  have l: "last (replace q (CHR ''/'') (CHR ''_'')) \<noteq> CHR ''_''"
    using assms by (simp add: replace_def last_map)
  have "rstrip (replace q (CHR ''/'') (CHR ''_'') @ replicate 1 (CHR ''_'')) (CHR ''_'') = replace q (CHR ''/'') (CHR ''_'')"
    using l by (intro rstrip_append_replicate) simp
  with r show ?thesis by (simp add: xml_filename_def)
qed

lemma claimed_plain: "claimed_xml_filename (q @ ''/'') = ''directory_'' @ replace q (CHR ''/'') (CHR ''_'') @ ''.xml''"
  by (simp add: claimed_xml_filename_def endswith_def suffix_def)


lemma worker_io_ok:
  "download_xml_worker fromstring Inr (io_ok body) st (Some p, sd, r) =
     ((True, None, Join (Join sd p) (xml_filename p), get_common_prefixes fromstring body),
      st\<lparr>gets := gets st @ [S3_BASE_URL @ p],
         files := (files st)(Join (Join sd p) (xml_filename p) \<mapsto> body)\<rparr>)"
  by (simp add: download_xml_worker_ok[where resp="\<lparr>content_length = Absent, content = Inr body,
        chunks = [body], stream_exn = None\<rparr>" and body=body and doc=body] io_ok_def)

lemma process_leaf:
  assumes "current_depth < max_depth"
    and "mkdir_exn (rec_io env (length (visited c))) = None"
    and "get_result (rec_io env (length (visited c))) = Inr resp"
    and "content resp = Inr body"
    and "open_exn (rec_io env (length (visited c))) = None"
    and "write_exn (rec_io env (length (visited c))) = None"
    and "get_common_prefixes (rec_fromstring env) body = []"
  shows "process_s3_directory_recursive env url (Some p) sd max_depth current_depth c =
           (None, c\<lparr>visited := visited c @ [(current_depth, Some p)],
                    rworld := (rworld c)\<lparr>gets := gets (rworld c) @ [url @ p],
                       files := (files (rworld c))(Join (Join sd p) (xml_filename p) \<mapsto> body)\<rparr>,
                    fetched := fetched c @ [(current_depth, p, None)]\<rparr>)"
  using assms
  by (subst process_s3_directory_recursive.simps)
     (simp add: path_div_def send_xml_request_with_retry_def save_xml_file_def Let_def)

text \<open>
  C8 (amended). The mirror file name is a function of the prefix alone:
  \<^verbatim>\<open>directory_\<close>, then the prefix with every \<^verbatim>\<open>/\<close> replaced by \<^verbatim>\<open>_\<close> and with all
  trailing underscores removed (the trailing separators and any underscores that
  end the prefix before them), then \<^verbatim>\<open>.xml\<close>. It contains no separator. For a prefix
  that ends in one separator after a character that is neither a separator nor an
  underscore, this is the prefix without its trailing separator, the separators
  replaced. A worker that succeeds writes the listing to
  \<^verbatim>\<open>save_dir / prefix / name\<close>; a second successful run over the same prefix derives
  the same path and leaves the set of files as it was. The recursive crawler writes
  to the same path.
\<close>

theorem mirror_file_name:
  "CHR ''/'' \<notin> set (xml_filename p)
   \<and> (\<exists>enc n. replace p (CHR ''/'') (CHR ''_'') = enc @ replicate n (CHR ''_'')
        \<and> (enc = [] \<or> last enc \<noteq> CHR ''_'')
        \<and> xml_filename p = ''directory_'' @ enc @ ''.xml'')
   \<and> (q \<noteq> [] \<and> last q \<noteq> CHR ''/'' \<and> last q \<noteq> CHR ''_'' \<longrightarrow>
        xml_filename (q @ ''/'') = ''directory_'' @ replace q (CHR ''/'') (CHR ''_'') @ ''.xml''
        \<and> xml_filename (q @ ''/'') = claimed_xml_filename (q @ ''/''))
   \<and> (download_xml_worker fromstring decode w st (Some p, sd, r) = ((True, err, xp, ch), st') \<longrightarrow>
        xp = Join (Join sd p) (xml_filename p) \<and> (\<exists>body. files st' = (files st)(xp \<mapsto> body)))
   \<and> (download_xml_worker fromstring decode w st (Some p, sd, r) = ((True, err, xp, ch), st')
        \<and> download_xml_worker fromstring decode w2 st' (Some p, sd, r) = ((True, err2, xp2, ch2), st2) \<longrightarrow>
        xp2 = xp \<and> dom (files st2) = dom (files st'))
   \<and> (current_depth < max_depth
        \<and> mkdir_exn (rec_io env (length (visited c))) = None
        \<and> get_result (rec_io env (length (visited c))) = Inr resp
        \<and> content resp = Inr doc
        \<and> open_exn (rec_io env (length (visited c))) = None
        \<and> write_exn (rec_io env (length (visited c))) = None
        \<and> get_common_prefixes (rec_fromstring env) doc = [] \<longrightarrow>
        files (rworld (snd (process_s3_directory_recursive env url (Some p) sd max_depth current_depth c)))
          = (files (rworld c))(Join (Join sd p) (xml_filename p) \<mapsto> doc))"
proof -
  have a: "CHR ''/'' \<notin> set (xml_filename p)" by (rule xml_filename_no_sep)
  have b: "\<exists>enc n. replace p (CHR ''/'') (CHR ''_'') = enc @ replicate n (CHR ''_'')
        \<and> (enc = [] \<or> last enc \<noteq> CHR ''_'')
        \<and> xml_filename p = ''directory_'' @ enc @ ''.xml''"
    using rstrip_decompose[of "replace p (CHR ''/'') (CHR ''_'')" "CHR ''_''"]
      rstrip_last[of "replace p (CHR ''/'') (CHR ''_'')" "CHR ''_''"]
    unfolding xml_filename_def by blast
  have c: "q \<noteq> [] \<and> last q \<noteq> CHR ''/'' \<and> last q \<noteq> CHR ''_'' \<longrightarrow>
        xml_filename (q @ ''/'') = ''directory_'' @ replace q (CHR ''/'') (CHR ''_'') @ ''.xml''
        \<and> xml_filename (q @ ''/'') = claimed_xml_filename (q @ ''/'')"
    using xml_filename_plain[of q] claimed_plain[of q] by simp
  have d: "download_xml_worker fromstring decode w st (Some p, sd, r) = ((True, err, xp, ch), st') \<longrightarrow>
        xp = Join (Join sd p) (xml_filename p) \<and> (\<exists>body. files st' = (files st)(xp \<mapsto> body))"
    using download_xml_worker_success[of fromstring decode w st p sd r err xp ch st'] by blast
  have e: "download_xml_worker fromstring decode w st (Some p, sd, r) = ((True, err, xp, ch), st')
        \<and> download_xml_worker fromstring decode w2 st' (Some p, sd, r) = ((True, err2, xp2, ch2), st2) \<longrightarrow>
        xp2 = xp \<and> dom (files st2) = dom (files st')"
  proof
    assume h: "download_xml_worker fromstring decode w st (Some p, sd, r) = ((True, err, xp, ch), st')
        \<and> download_xml_worker fromstring decode w2 st' (Some p, sd, r) = ((True, err2, xp2, ch2), st2)"
    from h download_xml_worker_success[of fromstring decode w st p sd r err xp ch st']
    obtain b1 where 1: "xp = Join (Join sd p) (xml_filename p)" "files st' = (files st)(xp \<mapsto> b1)"
      by blast
    from h download_xml_worker_success[of fromstring decode w2 st' p sd r err2 xp2 ch2 st2]
    obtain b2 where 2: "xp2 = Join (Join sd p) (xml_filename p)" "files st2 = (files st')(xp2 \<mapsto> b2)"
      by blast
    from 1 2 show "xp2 = xp \<and> dom (files st2) = dom (files st')" by auto
  qed
  have f: "current_depth < max_depth
        \<and> mkdir_exn (rec_io env (length (visited c))) = None
        \<and> get_result (rec_io env (length (visited c))) = Inr resp
        \<and> content resp = Inr doc
        \<and> open_exn (rec_io env (length (visited c))) = None
        \<and> write_exn (rec_io env (length (visited c))) = None
        \<and> get_common_prefixes (rec_fromstring env) doc = [] \<longrightarrow>
        files (rworld (snd (process_s3_directory_recursive env url (Some p) sd max_depth current_depth c)))
          = (files (rworld c))(Join (Join sd p) (xml_filename p) \<mapsto> doc)"
  proof
    assume h: "current_depth < max_depth
        \<and> mkdir_exn (rec_io env (length (visited c))) = None
        \<and> get_result (rec_io env (length (visited c))) = Inr resp
        \<and> content resp = Inr doc
        \<and> open_exn (rec_io env (length (visited c))) = None
        \<and> write_exn (rec_io env (length (visited c))) = None
        \<and> get_common_prefixes (rec_fromstring env) doc = []"
    then show "files (rworld (snd (process_s3_directory_recursive env url (Some p) sd max_depth current_depth c)))
          = (files (rworld c))(Join (Join sd p) (xml_filename p) \<mapsto> doc)"
      by (simp add: process_leaf[where resp=resp and body=doc])
  qed
  from a b c d e f show ?thesis by blast
qed

lemma xml_filename_a_us: "xml_filename ''a_/'' = ''directory_a.xml''"
  by (simp add: xml_filename_def rstrip_def replace_def)

lemma claimed_a_us: "claimed_xml_filename ''a_/'' = ''directory_a_.xml''"
  by (simp add: claimed_xml_filename_def endswith_def replace_def suffix_to_prefix)

text \<open>
  The claim as stated strips the trailing separator only. On the prefix \<^verbatim>\<open>a_/\<close> the
  source also strips the underscore that belongs to the prefix.
\<close>

theorem mirror_file_name_counterexample:
  "xml_filename ''a_/'' = ''directory_a.xml''
   \<and> claimed_xml_filename ''a_/'' = ''directory_a_.xml''
   \<and> xml_filename ''a_/'' \<noteq> claimed_xml_filename ''a_/''"
  by (simp add: xml_filename_a_us claimed_a_us)

lemma fixture_empty_children: "get_common_prefixes fixture_fromstring ''<empty/>'' = []"
  by (simp add: get_common_prefixes_def fixture_fromstring_def listing_def findall_def)

lemma io_ok_fields:
  "mkdir_exn (io_ok body) = None"
  "get_result (io_ok body) =
     Inr \<lparr>content_length = Absent, content = Inr body, chunks = [body], stream_exn = None\<rparr>"
  "open_exn (io_ok body) = None"
  "write_exn (io_ok body) = None"
  "unlink_exn (io_ok body) = None"
  "pool_get_exn (io_ok body) = None"
  by (simp_all add: io_ok_def)

lemma claimed_data_spot: "claimed_xml_filename ''data/spot/'' = ''directory_data_spot.xml''"
  by (simp add: claimed_xml_filename_def endswith_def replace_def suffix_to_prefix)

lemma xml_filename_data_spot: "xml_filename ''data/spot/'' = ''directory_data_spot.xml''"
  by (simp add: xml_filename_def rstrip_def replace_def)

theorem mirror_file_name_witness:
  "''data/spot'' \<noteq> [] \<and> last ''data/spot'' \<noteq> CHR ''/'' \<and> last ''data/spot'' \<noteq> CHR ''_''
   \<and> xml_filename ''data/spot/'' = ''directory_data_spot.xml''
   \<and> claimed_xml_filename ''data/spot/'' = ''directory_data_spot.xml''
   \<and> download_xml_worker fixture_fromstring Inr (io_ok ''<empty/>'') empty_world
        (Some ''data/spot/'', Path ''./data'', 3) =
       ((True, None, Join (Join (Path ''./data'') ''data/spot/'') ''directory_data_spot.xml'', []),
        \<lparr>files = [Join (Join (Path ''./data'') ''data/spot/'') ''directory_data_spot.xml'' \<mapsto> ''<empty/>''],
         gets = [S3_BASE_URL @ ''data/spot/'']\<rparr>)
   \<and> download_xml_worker fixture_fromstring Inr (io_ok ''<empty/>'')
        \<lparr>files = [Join (Join (Path ''./data'') ''data/spot/'') ''directory_data_spot.xml'' \<mapsto> ''<empty/>''],
         gets = [S3_BASE_URL @ ''data/spot/'']\<rparr>
        (Some ''data/spot/'', Path ''./data'', 3) =
       ((True, None, Join (Join (Path ''./data'') ''data/spot/'') ''directory_data_spot.xml'', []),
        \<lparr>files = [Join (Join (Path ''./data'') ''data/spot/'') ''directory_data_spot.xml'' \<mapsto> ''<empty/>''],
         gets = [S3_BASE_URL @ ''data/spot/'', S3_BASE_URL @ ''data/spot/'']\<rparr>)
   \<and> (0::int) < 10
   \<and> files (rworld (snd (process_s3_directory_recursive fixture_rec_env S3_BASE_URL (Some ''data/spot/'')
         (Path ''./data'') 10 0 rcrawl_start)))
       = [Join (Join (Path ''./data'') ''data/spot/'') ''directory_data_spot.xml'' \<mapsto> ''<empty/>'']"
  using mirror_file_name[of "''data/spot/''" "''data/spot''" fixture_fromstring Inr "io_ok ''<empty/>''"
      empty_world "Path ''./data''" 3 None
      "Join (Join (Path ''./data'') ''data/spot/'') ''directory_data_spot.xml''" "[]"
      "\<lparr>files = [Join (Join (Path ''./data'') ''data/spot/'') ''directory_data_spot.xml'' \<mapsto> ''<empty/>''],
         gets = [S3_BASE_URL @ ''data/spot/'']\<rparr>"
      "io_ok ''<empty/>''" None
      "Join (Join (Path ''./data'') ''data/spot/'') ''directory_data_spot.xml''" "[]"
      "\<lparr>files = [Join (Join (Path ''./data'') ''data/spot/'') ''directory_data_spot.xml'' \<mapsto> ''<empty/>''],
         gets = [S3_BASE_URL @ ''data/spot/'', S3_BASE_URL @ ''data/spot/'']\<rparr>"
      0 10 fixture_rec_env rcrawl_start
      "\<lparr>content_length = Absent, content = Inr ''<empty/>'', chunks = [''<empty/>''], stream_exn = None\<rparr>"
      "''<empty/>''" S3_BASE_URL]
  by (simp add: worker_io_ok fixture_empty_children xml_filename_data_spot claimed_data_spot
      empty_world_def fixture_rec_env_def rcrawl_start_def io_ok_fields)

section \<open>Archive downloader: verification\<close>

lemma download_file_worker_exists:
  "files st lp \<noteq> None \<Longrightarrow> download_file_worker w st (url, lp, r) = ((True, url, lp), st)"
  by (auto simp: download_file_worker_def download_file_body_def)

lemma download_file_body_frame:
  "download_file_body w st (url, lp, r) = (res, st') \<Longrightarrow> q \<noteq> lp \<Longrightarrow> files st' q = files st q"
  by (auto simp: download_file_body_def Let_def
      split: if_splits option.splits sum.splits header.splits)

lemma download_file_body_result:
  "download_file_body w st (url, lp, r) = (Inr (ok, u, p), st') \<Longrightarrow>
     ok \<and> u = url \<and> p = lp \<and> files st' lp \<noteq> None"
  by (auto simp: download_file_body_def Let_def
      split: if_splits option.splits sum.splits header.splits)

lemma download_file_worker_frame:
  assumes "download_file_worker w st (url, lp, r) = (res, st')" "q \<noteq> lp"
  shows "files st' q = files st q"
proof (cases "download_file_body w st (url, lp, r)")
  case (Pair x st1)
  from Pair assms(2) have f: "files st1 q = files st q" by (rule download_file_body_frame)
  from assms Pair f show ?thesis
    by (auto simp: download_file_worker_def split: sum.splits if_splits option.splits)
qed

lemma download_file_worker_result:
  assumes "download_file_worker w st (url, lp, r) = ((ok, u, p), st')"
  shows "u = url \<and> p = lp \<and> (ok \<longrightarrow> files st' lp \<noteq> None)"
proof (cases "download_file_body w st (url, lp, r)")
  case (Pair x st1)
  show ?thesis
  proof (cases x)
    case (Inl e)
    with Pair assms show ?thesis
      by (auto simp: download_file_worker_def split: if_splits option.splits)
  next
    case (Inr res)
    obtain ok' u' p' where res: "res = (ok', u', p')" by (cases res) auto
    with Pair Inr have "download_file_body w st (url, lp, r) = (Inr (ok', u', p'), st1)" by simp
    from download_file_body_result[OF this] Pair Inr res assms show ?thesis
      by (auto simp: download_file_worker_def)
  qed
qed

lemma download_file_worker_cleanup:
  assumes "download_file_worker w st (url, lp, r) = ((False, u, p), st')" "unlink_exn w = None"
  shows "files st' lp = None"
proof (cases "download_file_body w st (url, lp, r)")
  case (Pair x st1)
  show ?thesis
  proof (cases x)
    case (Inl e)
    with Pair assms show ?thesis
      by (auto simp: download_file_worker_def split: if_splits)
  next
    case (Inr res)
    obtain ok' u' p' where res: "res = (ok', u', p')" by (cases res) auto
    with Pair Inr have "download_file_body w st (url, lp, r) = (Inr (ok', u', p'), st1)" by simp
    from download_file_body_result[OF this] Pair Inr res assms show ?thesis
      by (auto simp: download_file_worker_def)
  qed
qed

lemma download_file_worker_keeps:
  assumes "download_file_worker w st (url, lp, r) = (res, st')" "files st q \<noteq> None"
  shows "files st' q \<noteq> None"
proof (cases "q = lp")
  case True
  with assms show ?thesis using download_file_worker_exists[of st lp w url r] by auto
next
  case False
  with assms show ?thesis using download_file_worker_frame[of w st url lp r res st' q] by simp
qed

lemma download_loop_counts:
  "successful_downloads (download_loop tio i tasks b) + failed_downloads (download_loop tio i tasks b)
     = successful_downloads b + failed_downloads b + length tasks
   \<and> length (failed_files (download_loop tio i tasks b)) + failed_downloads b
     = length (failed_files b) + failed_downloads (download_loop tio i tasks b)"
proof (induction tasks arbitrary: i b)
  case Nil
  then show ?case by simp
next
  case (Cons t ts)
  obtain ok u p st' where w: "download_file_worker (tio i) (bworld b) t = ((ok, u, p), st')"
    by (metis prod.exhaust)
  show ?case
  proof (cases ok)
    case True
    with w show ?thesis
      using Cons.IH[of "Suc i" "b\<lparr>bworld := st', successful_downloads := successful_downloads b + 1\<rparr>"]
      by simp
  next
    case False
    with w show ?thesis
      using Cons.IH[of "Suc i" "b\<lparr>bworld := st', failed_downloads := failed_downloads b + 1,
                     failed_files := failed_files b @ [u]\<rparr>"]
      by simp
  qed
qed

lemma download_loop_keeps:
  "files (bworld b) q \<noteq> None \<or> x \<in> set (failed_files b) \<Longrightarrow>
   files (bworld (download_loop tio i tasks b)) q \<noteq> None \<or> x \<in> set (failed_files (download_loop tio i tasks b))"
proof (induction tasks arbitrary: i b)
  case Nil
  then show ?case by simp
next
  case (Cons t ts)
  obtain url lp r where t: "t = (url, lp, r)" by (cases t) auto
  obtain ok u p st' where w: "download_file_worker (tio i) (bworld b) (url, lp, r) = ((ok, u, p), st')"
    by (metis prod.exhaust)
  from Cons.prems download_file_worker_keeps[OF w]
  have k: "files st' q \<noteq> None \<or> x \<in> set (failed_files b)" by blast
  show ?case
  proof (cases ok)
    case True
    with w t k show ?thesis
      using Cons.IH[of "b\<lparr>bworld := st', successful_downloads := successful_downloads b + 1\<rparr>" "Suc i"]
      by simp
  next
    case False
    with w t k show ?thesis
      using Cons.IH[of "b\<lparr>bworld := st', failed_downloads := failed_downloads b + 1,
                     failed_files := failed_files b @ [u]\<rparr>" "Suc i"]
      by auto
  qed
qed

lemma download_loop_all_handled:
  "(url, lp, r) \<in> set tasks \<Longrightarrow>
   files (bworld (download_loop tio i tasks b)) lp \<noteq> None
   \<or> url \<in> set (failed_files (download_loop tio i tasks b))"
proof (induction tasks arbitrary: i b)
  case Nil
  then show ?case by simp
next
  case (Cons t ts)
  obtain url' lp' r' where t: "t = (url', lp', r')" by (cases t) auto
  obtain ok u p st' where w: "download_file_worker (tio i) (bworld b) (url', lp', r') = ((ok, u, p), st')"
    by (metis prod.exhaust)
  note res = download_file_worker_result[OF w]
  show ?case
  proof (cases "(url, lp, r) = t")
    case True
    show ?thesis
    proof (cases ok)
      case True
      with res have "files st' lp' \<noteq> None" by simp
      then have "files (bworld (b\<lparr>bworld := st', successful_downloads := successful_downloads b + 1\<rparr>)) lp' \<noteq> None
         \<or> url' \<in> set (failed_files (b\<lparr>bworld := st', successful_downloads := successful_downloads b + 1\<rparr>))"
        by simp
      from download_loop_keeps[OF this, of tio "Suc i" ts] \<open>(url, lp, r) = t\<close> t w True
      show ?thesis by simp
    next
      case False
      from res have "files (bworld (b\<lparr>bworld := st', failed_downloads := failed_downloads b + 1,
                     failed_files := failed_files b @ [u]\<rparr>)) lp' \<noteq> None
         \<or> url' \<in> set (failed_files (b\<lparr>bworld := st', failed_downloads := failed_downloads b + 1,
                     failed_files := failed_files b @ [u]\<rparr>))"
        by simp
      from download_loop_keeps[OF this, of tio "Suc i" ts] \<open>(url, lp, r) = t\<close> t w False
      show ?thesis by simp
    qed
  next
    case False
    with Cons.prems have m: "(url, lp, r) \<in> set ts" by auto
    show ?thesis
    proof (cases ok)
      case True
      with w t show ?thesis
        using Cons.IH[OF m, of "Suc i" "b\<lparr>bworld := st', successful_downloads := successful_downloads b + 1\<rparr>"]
        by simp
    next
      case False
      with w t show ?thesis
        using Cons.IH[OF m, of "Suc i" "b\<lparr>bworld := st', failed_downloads := failed_downloads b + 1,
                     failed_files := failed_files b @ [u]\<rparr>"]
        by simp
    qed
  qed
qed

text \<open>
  C9 (amended). For every download task: when the local path exists already, the
  worker returns success and changes nothing. When the worker returns failure and
  \<^verbatim>\<open>unlink\<close> does not raise, no file is left at the local path; a failure of
  \<^verbatim>\<open>unlink\<close> itself is swallowed by the source and is not covered. No other path is
  touched. In the batch every task is counted once as a success or as a failure,
  whatever happened to the tasks before it, and at the end the file of every task
  is there or its URL is in \<^verbatim>\<open>failed_files\<close>.
\<close>

theorem download_worker_contract:
  "(files st lp \<noteq> None \<longrightarrow> download_file_worker w st (url, lp, r) = ((True, url, lp), st))
   \<and> (download_file_worker w st (url, lp, r) = ((False, u, p), st') \<and> unlink_exn w = None \<longrightarrow>
        files st' lp = None)
   \<and> (download_file_worker w st (url, lp, r) = (res, st') \<and> q \<noteq> lp \<longrightarrow> files st' q = files st q)
   \<and> successful_downloads (download_loop tio i tasks b) + failed_downloads (download_loop tio i tasks b)
       = successful_downloads b + failed_downloads b + length tasks
   \<and> ((url, lp, r) \<in> set tasks \<longrightarrow>
        files (bworld (download_loop tio i tasks b)) lp \<noteq> None
        \<or> url \<in> set (failed_files (download_loop tio i tasks b)))"
  using download_file_worker_exists[of st lp w url r]
    download_file_worker_cleanup[of w st url lp r u p st']
    download_file_worker_frame[of w st url lp r res st' q]
    download_loop_counts[of tio i tasks b]
    download_loop_all_handled[of url lp r tasks tio i b]
  by blast

lemma worker_partial_deleted:
  "download_file_worker (io_partial None) empty_world (''u2'', Path ''b.zip'', 3)
     = ((False, ''u2'', Path ''b.zip''), \<lparr>files = Map.empty, gets = [''u2'']\<rparr>)"
  by (simp add: download_file_worker_def download_file_body_def io_partial_def empty_world_def Let_def)

text \<open>
  The claim as stated leaves no partial file after any failure. When the stream
  breaks off and \<^verbatim>\<open>unlink\<close> raises, the handler passes and the two bytes written
  stay at the local path.
\<close>

theorem partial_file_remains_counterexample:
  "download_file_worker (io_partial (Some (OSError ''busy''))) empty_world (''u2'', Path ''b.zip'', 3)
     = ((False, ''u2'', Path ''b.zip''), \<lparr>files = [Path ''b.zip'' \<mapsto> ''PK''], gets = [''u2'']\<rparr>)
   \<and> files (snd (download_file_worker (io_partial (Some (OSError ''busy''))) empty_world
                    (''u2'', Path ''b.zip'', 3))) (Path ''b.zip'') = Some ''PK''"
  by (simp add: download_file_worker_def download_file_body_def io_partial_def empty_world_def Let_def)

lemma batch_example:
  "download_loop fixture_task_io 0 fixture_tasks (batch_start empty_world)
   = \<lparr>bworld = \<lparr>files = [Path ''a.zip'' \<mapsto> ''PK'', Path ''c.zip'' \<mapsto> ''PK''],
                 gets = [''u1'', ''u2'', ''u3'']\<rparr>,
      successful_downloads = 2, failed_downloads = 1, failed_files = [''u2'']\<rparr>"
  by (simp add: download_file_worker_def download_file_body_def io_partial_def io_ok_def
      empty_world_def batch_start_def Let_def fixture_task_io_def fixture_tasks_def)

lemma worker_skip_example:
  "download_file_worker (io_ok ''PK'') fixture_old_world (''u1'', Path ''a.zip'', 3)
     = ((True, ''u1'', Path ''a.zip''), fixture_old_world)"
  by (rule download_file_worker_exists) (simp add: fixture_old_world_def)

theorem download_worker_contract_witness:
  "files fixture_old_world (Path ''a.zip'') \<noteq> None
   \<and> download_file_worker (io_ok ''PK'') fixture_old_world (''u1'', Path ''a.zip'', 3)
       = ((True, ''u1'', Path ''a.zip''), fixture_old_world)
   \<and> download_file_worker (io_partial None) empty_world (''u2'', Path ''b.zip'', 3)
       = ((False, ''u2'', Path ''b.zip''), \<lparr>files = Map.empty, gets = [''u2'']\<rparr>)
   \<and> unlink_exn (io_partial None) = None
   \<and> files \<lparr>files = Map.empty, gets = [''u2'']\<rparr> (Path ''b.zip'') = None
   \<and> Path ''a.zip'' \<noteq> Path ''b.zip''
   \<and> files \<lparr>files = Map.empty, gets = [''u2'']\<rparr> (Path ''a.zip'') = files empty_world (Path ''a.zip'')
   \<and> (''u3'', Path ''c.zip'', 3) \<in> set fixture_tasks
   \<and> (''u2'', Path ''b.zip'', 3) \<in> set fixture_tasks
   \<and> length fixture_tasks = 3
   \<and> successful_downloads (download_loop fixture_task_io 0 fixture_tasks (batch_start empty_world)) = 2
   \<and> failed_downloads (download_loop fixture_task_io 0 fixture_tasks (batch_start empty_world)) = 1
   \<and> files (bworld (download_loop fixture_task_io 0 fixture_tasks (batch_start empty_world)))
        (Path ''c.zip'') \<noteq> None
   \<and> ''u2'' \<in> set (failed_files (download_loop fixture_task_io 0 fixture_tasks (batch_start empty_world)))"
  using download_worker_contract[of fixture_old_world "Path ''a.zip''"
          "io_ok ''PK''" "''u1''" 3 "''u1''" "Path ''a.zip''" fixture_old_world
          "(True, ''u1'', Path ''a.zip'')" "Path ''b.zip''"
          fixture_task_io 0 fixture_tasks "batch_start empty_world"]
        download_worker_contract[of empty_world "Path ''b.zip''"
          "io_partial None" "''u2''" 3 "''u2''" "Path ''b.zip''"
          "\<lparr>files = Map.empty, gets = [''u2'']\<rparr>"
          "(False, ''u2'', Path ''b.zip'')" "Path ''a.zip''"
          fixture_task_io 0 fixture_tasks "batch_start empty_world"]
        download_worker_contract[of empty_world "Path ''c.zip''"
          "io_partial None" "''u3''" 3 "''u2''" "Path ''b.zip''"
          "\<lparr>files = Map.empty, gets = [''u2'']\<rparr>"
          "(False, ''u2'', Path ''b.zip'')" "Path ''a.zip''"
          fixture_task_io 0 fixture_tasks "batch_start empty_world"]
  by (simp add: worker_partial_deleted worker_skip_example batch_example)
     (simp add: io_partial_def fixture_tasks_def fixture_old_world_def empty_world_def)

section \<open>Level-synchronised crawler: verification\<close>

lemma download_xml_worker_indep:
  "fst (download_xml_worker fromstring decode w st t) = fst (download_xml_worker fromstring decode w st0 t)"
  by (cases t) (auto simp: download_xml_worker_def download_xml_body_def Let_def
      split: option.splits sum.splits)

lemma download_xml_worker_gets:
  "gets (snd (download_xml_worker fromstring decode w st (p, sd, r))) = gets st @ requests_of w p"
  by (auto simp: download_xml_worker_def download_xml_body_def Let_def requests_of_def path_div_def
      split: option.splits sum.splits)

lemma collect_results_seen:
  "seen (collect_results fromstring decode env cb tasks a)
     = seen a @ map (view_of fromstring decode env) tasks"
proof (induction tasks arbitrary: a)
  case Nil
  then show ?case by simp
next
  case (Cons t ts)
  obtain res st' where w: "download_xml_worker fromstring decode (env (fst t)) (lworld a) t = (res, st')"
    by (cases "download_xml_worker fromstring decode (env (fst t)) (lworld a) t") auto
  then have r: "fst (download_xml_worker fromstring decode (env (fst t)) empty_world t) = res"
    using download_xml_worker_indep[of fromstring decode "env (fst t)" empty_world t "lworld a"] by simp
  obtain ok err xp ch where res: "res = (ok, err, xp, ch)" by (cases res) auto
  show ?case
    using w r res by (simp add: Cons.IH view_of_def split: option.splits)
qed

lemma collect_results_gets:
  "gets (lworld (collect_results fromstring decode env cb tasks a))
     = gets (lworld a) @ concat (map (\<lambda>t. requests_of (env (fst t)) (fst t)) tasks)"
proof (induction tasks arbitrary: a)
  case Nil
  then show ?case by simp
next
  case (Cons t ts)
  obtain p sd r where t: "t = (p, sd, r)" by (cases t) auto
  obtain res st' where w: "download_xml_worker fromstring decode (env p) (lworld a) (p, sd, r) = (res, st')"
    by (cases "download_xml_worker fromstring decode (env p) (lworld a) (p, sd, r)") auto
  then have g: "gets st' = gets (lworld a) @ requests_of (env p) p"
    using download_xml_worker_gets[of fromstring decode "env p" "lworld a" p sd r] by simp
  obtain ok err xp ch where res: "res = (ok, err, xp, ch)" by (cases res) auto
  show ?case
    using w g res t by (simp add: Cons.IH split: option.splits)
qed

lemma collect_results_ok:
  "level_ok cb a \<Longrightarrow> level_ok cb (collect_results fromstring decode env cb tasks a)"
proof (induction tasks arbitrary: a)
  case Nil
  then show ?case by simp
next
  case (Cons t ts)
  obtain res st' where w: "download_xml_worker fromstring decode (env (fst t)) (lworld a) t = (res, st')"
    by (cases "download_xml_worker fromstring decode (env (fst t)) (lworld a) t") auto
  obtain ok err xp ch where res: "res = (ok, err, xp, ch)" by (cases res) auto
  show ?case
  proof (cases "pool_get_exn (env (fst t))")
    case (Some e)
    have "level_ok cb (a\<lparr>lworld := st', failed := failed a + 1,
                    failed_tasks := failed_tasks a @ [(fst t, Some e)],
                    messages := messages a @ (if cb then [TaskException (fst t) e] else []),
                    seen := seen a @ [(fst t, Inl e)]\<rparr>)"
      using Cons.prems
      unfolding level_ok_def
      by (auto simp: children_of_seen_def failure_of_seen_def message_of_seen_def)
    from Cons.IH[OF this] w Some show ?thesis by simp
  next
    case None
    show ?thesis
    proof (cases ok)
      case True
      have "level_ok cb (a\<lparr>lworld := st', successful := successful a + 1,
                         next_level_prefixes := next_level_prefixes a @ ch,
                         messages := messages a @ (if cb then [Downloaded (path_name xp)] else []),
                         seen := seen a @ [(fst t, Inr res)]\<rparr>)"
        using Cons.prems res True
        unfolding level_ok_def
      by (auto simp: children_of_seen_def failure_of_seen_def message_of_seen_def)
      from Cons.IH[OF this] w None res True show ?thesis by simp
    next
      case False
      have "level_ok cb (a\<lparr>lworld := st', failed := failed a + 1,
                         failed_tasks := failed_tasks a @ [(fst t, err)],
                         messages := messages a @ (if cb then [DownloadFailed (fst t) err] else []),
                         seen := seen a @ [(fst t, Inr res)]\<rparr>)"
        using Cons.prems res False
        unfolding level_ok_def
      by (auto simp: children_of_seen_def failure_of_seen_def message_of_seen_def)
      from Cons.IH[OF this] w None res False show ?thesis by simp
    qed
  qed
qed

lemma level_start_ok: "level_ok cb (level_start st)"
  by (simp add: level_ok_def level_start_def)

lemma process_level_facts:
  assumes "process_level_with_multiprocessing fromstring decode env cur sd workers retries lvl cb st = Inr a"
  shows "level_ok cb a"
    and "seen a = map (view_of fromstring decode env) (map (\<lambda>p. (p, sd, retries)) cur)"
    and "gets (lworld a) = gets st @ concat (map (\<lambda>p. requests_of (env p) p) cur)"
proof -
  show "level_ok cb a"
    using assms level_start_ok[of cb st] collect_results_ok[of cb "level_start st"]
    by (auto simp: process_level_with_multiprocessing_def Let_def split: if_splits)
  show "seen a = map (view_of fromstring decode env) (map (\<lambda>p. (p, sd, retries)) cur)"
    using assms
    by (auto simp: process_level_with_multiprocessing_def Let_def collect_results_seen level_start_def
        split: if_splits)
  show "gets (lworld a) = gets st @ concat (map (\<lambda>p. requests_of (env p) p) cur)"
    using assms
    by (auto simp: process_level_with_multiprocessing_def Let_def collect_results_gets level_start_def
        comp_def split: if_splits)
qed

lemma run_extends_refl: "run_extends env args level cur c c"
  unfolding run_extends_def by (rule exI[of _ "[]"]) simp

lemma main_loop_extends:
  "run_extends env args level cur c (snd (main_loop env args level cur c))"
proof (induction env args level cur c rule: main_loop.induct)
  case (1 env args level cur c)
  show ?case
  proof (cases "level < args_max_depth args \<and> cur \<noteq> []")
    case False
    then have "main_loop env args level cur c = (Returned, c)"
      by (subst main_loop.simps) auto
    then show ?thesis by (simp add: run_extends_refl)
  next
    case True
    let ?x = "list_set env cur"
    show ?thesis
    proof (cases "process_level_with_multiprocessing (et_fromstring env)
          (decode_utf8 env) (level_io env level) ?x (args_save_dir args)
          (args_workers args) (args_retries args) (level + 1) True (cworld c)")
      case (Inl e)
      with True have "main_loop env args level cur c = (Uncaught e, c)"
        by (subst main_loop.simps) (simp add: Let_def)
      then show ?thesis by (simp add: run_extends_refl)
    next
      case (Inr b)
      let ?r = "\<lparr>depth = level, frontier = ?x,
                   requested = drop (length (gets (cworld c))) (gets (lworld b)),
                   outcome = b\<rparr>"
      let ?c' = "c\<lparr>cworld := lworld b,
             total_successful := total_successful c + successful b,
             total_failed := total_failed c + failed b,
             log := log c @ messages b,
             levels := levels c @ [?r]\<rparr>"
      note facts = process_level_facts[OF Inr]
      have req: "requested ?r = concat (map (\<lambda>p. requests_of (level_io env level p) p) ?x)"
        using facts(3) by simp
      have g: "gets (lworld b) = gets (cworld c) @ requested ?r"
        using facts(3) by simp
      show ?thesis
      proof (cases "next_level_prefixes b = []")
        case e: True
        with True Inr have m: "main_loop env args level cur c = (Returned, ?c')"
          by (subst main_loop.simps) (simp add: Let_def)
        have "trace_ok env args level cur [?r]"
          using True facts(1,2) req by simp
        then have "run_extends env args level cur c ?c'"
          unfolding run_extends_def using g by (intro exI[of _ "[?r]"]) simp
        with m show ?thesis by simp
      next
        case ne: False
        with True Inr have m: "main_loop env args level cur c
            = main_loop env args (level + 1) (next_level_prefixes b) ?c'"
          by (subst main_loop.simps) (simp add: Let_def)
        from True have t1: "\<not> \<not> level < args_max_depth args" and t2: "cur \<noteq> []" by auto
        have ih: "run_extends env args (level + 1) (next_level_prefixes b) ?c'
                    (snd (main_loop env args (level + 1) (next_level_prefixes b) ?c'))"
          by (rule "1.IH"[OF t1 t2 refl Inr refl ne])
        then obtain new where n:
          "levels (snd (main_loop env args (level + 1) (next_level_prefixes b) ?c')) = levels ?c' @ new"
          "trace_ok env args (level + 1) (next_level_prefixes b) new"
          "gets (cworld (snd (main_loop env args (level + 1) (next_level_prefixes b) ?c')))
             = gets (cworld ?c') @ concat (map requested new)"
          "log (snd (main_loop env args (level + 1) (next_level_prefixes b) ?c'))
             = log ?c' @ concat (map (\<lambda>r. messages (outcome r)) new)"
          "total_successful (snd (main_loop env args (level + 1) (next_level_prefixes b) ?c'))
             = total_successful ?c' + sum_list (map (\<lambda>r. successful (outcome r)) new)"
          "total_failed (snd (main_loop env args (level + 1) (next_level_prefixes b) ?c'))
             = total_failed ?c' + sum_list (map (\<lambda>r. failed (outcome r)) new)"
          unfolding run_extends_def by blast
        have tr: "trace_ok env args level cur (?r # new)"
          using True facts(1,2) req n(2) by simp
        have "run_extends env args level cur c
                (snd (main_loop env args (level + 1) (next_level_prefixes b) ?c'))"
          unfolding run_extends_def
          using n(1,3,4,5,6) tr g by (intro exI[of _ "?r # new"]) simp
        with m show ?thesis by simp
      qed
    qed
  qed
qed

lemma xml_main_extends:
  "run_extends env args 0 [Some (args_start_prefix args)] (crawl_start st) (snd (xml_main env args st))"
  by (simp add: xml_main_def main_loop_extends run_extends_refl split: option.splits)

lemma worker_io_fail:
  "download_xml_worker fromstring decode (io_fail e) st (Some p, sd, r) =
     ((False, Some e, Path [], []), st\<lparr>gets := gets st @ [S3_BASE_URL @ p]\<rparr>)"
  by (simp add: download_xml_worker_def download_xml_body_def path_div_def io_fail_def Let_def)

lemma fixture_children:
  "get_common_prefixes fixture_fromstring ''<root/>'' = [Some ''a/'', Some ''b/'']"
  "get_common_prefixes fixture_fromstring ''<hole/>'' = [None, Some ''c/'', Some ''c/'']"
  "get_common_prefixes fixture_fromstring ''<empty/>'' = []"
  by (simp_all add: get_common_prefixes_def fixture_fromstring_def listing_def findall_def
      fx_common_prefix_def find_child_def)

lemma io_fail_fields:
  "mkdir_exn (io_fail e) = None"
  "get_result (io_fail e) = Inl e"
  "pool_get_exn (io_fail e) = None"
  by (simp_all add: io_fail_def)

lemma fixture_run_3:
  "map (\<lambda>r. (depth r, frontier r, requested r, seen (outcome r), failed_tasks (outcome r)))
     (levels (snd (xml_main fixture_xml_env (fixture_xml_args 3) empty_world)))
   = [(0, [Some ''data/''], [S3_BASE_URL @ ''data/''],
        [(Some ''data/'', Inr (True, None, Join (Join (Path ''./data'') ''data/'') (xml_filename ''data/''),
            [Some ''a/'', Some ''b/'']))], []),
      (1, [Some ''a/'', Some ''b/''], [S3_BASE_URL @ ''a/'', S3_BASE_URL @ ''b/''],
        [(Some ''a/'', Inr (False, Some (RequestException ''503''), Path [], [])),
         (Some ''b/'', Inr (True, None, Join (Join (Path ''./data'') ''b/'') (xml_filename ''b/''),
            [None, Some ''c/'', Some ''c/'']))],
        [(Some ''a/'', Some (RequestException ''503''))]),
      (2, [None, Some ''c/''], [S3_BASE_URL @ ''c/''],
        [(None, Inr (False, Some TypeError, Path [], [])),
         (Some ''c/'', Inr (True, None, Join (Join (Path ''./data'') ''c/'') (xml_filename ''c/''), []))],
        [(None, Some TypeError)])]"
  by (simp add: xml_main_def main_loop.simps fixture_xml_env_def fixture_xml_args_def
      process_level_with_multiprocessing_def level_start_def crawl_start_def Let_def
      fixture_level_io_def worker_io_ok worker_io_fail download_xml_worker_none
      io_ok_fields io_fail_fields fixture_children empty_world_def)

lemma trace_ok_depth:
  "trace_ok env args level cur new \<Longrightarrow> i < length new \<Longrightarrow>
     depth (new ! i) = level + int i \<and> depth (new ! i) < args_max_depth args"
proof (induction new arbitrary: level cur i)
  case Nil
  then show ?case by simp
next
  case (Cons r rs)
  show ?case
  proof (cases i)
    case 0
    with Cons.prems show ?thesis by simp
  next
    case (Suc j)
    with Cons.prems have "trace_ok env args (level + 1) (next_level_prefixes (outcome r)) rs" "j < length rs"
      by auto
    from Cons.IH[OF this] Suc show ?thesis by simp
  qed
qed

lemma trace_ok_member:
  "trace_ok env args level cur new \<Longrightarrow> r \<in> set new \<Longrightarrow>
     level_ok True (outcome r)
     \<and> seen (outcome r) =
          map (view_of (et_fromstring env) (decode_utf8 env) (level_io env (depth r)))
              (map (\<lambda>p. (p, args_save_dir args, args_retries args)) (frontier r))
     \<and> requested r = concat (map (\<lambda>p. requests_of (level_io env (depth r) p) p) (frontier r))"
proof (induction new arbitrary: level cur)
  case Nil
  then show ?case by simp
next
  case (Cons x xs)
  show ?case
  proof (cases "r = x")
    case True
    with Cons.prems(1) show ?thesis by auto
  next
    case False
    with Cons.prems have "trace_ok env args (level + 1) (next_level_prefixes (outcome x)) xs" "r \<in> set xs"
      by auto
    from Cons.IH[OF this] show ?thesis .
  qed
qed

lemma trace_ok_first:
  "trace_ok env args level cur new \<Longrightarrow> new \<noteq> [] \<Longrightarrow> frontier (new ! 0) = list_set env cur"
  by (cases new) auto

lemma trace_ok_next:
  "trace_ok env args level cur new \<Longrightarrow> Suc i < length new \<Longrightarrow>
     frontier (new ! Suc i) = list_set env (next_level_prefixes (outcome (new ! i)))"
proof (induction new arbitrary: level cur i)
  case Nil
  then show ?case by simp
next
  case (Cons r rs)
  from Cons.prems have t: "trace_ok env args (level + 1) (next_level_prefixes (outcome r)) rs" by simp
  show ?case
  proof (cases i)
    case 0
    with Cons.prems have "rs \<noteq> []" by auto
    from trace_ok_first[OF t this] 0 show ?thesis by simp
  next
    case (Suc j)
    with Cons.prems have "Suc j < length rs" by simp
    from Cons.IH[OF t this] Suc show ?thesis by simp
  qed
qed

lemma set_children_of_seen:
  "set (concat (map children_of_seen xs)) =
     {q. \<exists>p e xp ch. (p, Inr (True, e, xp, ch)) \<in> set xs \<and> q \<in> set ch}"
proof (induction xs)
  case Nil
  then show ?case by simp
next
  case (Cons x xs)
  obtain p v where x: "x = (p, v)" by (cases x) auto
  show ?case
  proof (cases v)
    case (Inl e)
    with x Cons.IH show ?thesis by (auto simp: children_of_seen_def)
  next
    case (Inr res)
    obtain ok e xp ch where res: "res = (ok, e, xp, ch)" by (cases res) auto
    with x Inr Cons.IH show ?thesis by (auto simp: children_of_seen_def)
  qed
qed

lemma map_fst_view_of:
  "map fst (map (view_of fromstring decode env) (map (\<lambda>p. (p, sd, r)) ps)) = ps"
  by (induction ps) (auto simp: view_of_def)

lemma xml_main_levels_start: "levels (crawl_start st) = []"
  by (simp add: crawl_start_def)

lemma xml_main_trace:
  "trace_ok env args 0 [Some (args_start_prefix args)] (levels (snd (xml_main env args st)))"
  using xml_main_extends[of env args st]
  by (auto simp: run_extends_def crawl_start_def)

text \<open>
  C1. In a run of \<^verbatim>\<open>main\<close>, with \<^verbatim>\<open>list(set(...))\<close> listing every element of its argument
  once: the first frontier is the start prefix, at depth 0. Every frontier that is
  dispatched gets one result per prefix, which is the exception of the pool or the
  tuple of the worker for that prefix. The frontier dispatched after it is one
  level deeper, has no duplicates, and its elements are exactly the child prefixes
  in the tuples that report success: every such child is in it, nothing else is,
  and a result that is an exception or reports failure adds nothing.
\<close>

theorem frontier_is_union_of_children:
  assumes "\<forall>xs. set (list_set env xs) = set xs \<and> distinct (list_set env xs)"
    and "ls = levels (snd (xml_main env args st))"
  shows "(ls \<noteq> [] \<longrightarrow> frontier (ls ! 0) = [Some (args_start_prefix args)] \<and> depth (ls ! 0) = 0)
     \<and> (\<forall>i < length ls.
           map fst (seen (outcome (ls ! i))) = frontier (ls ! i)
         \<and> seen (outcome (ls ! i)) =
             map (view_of (et_fromstring env) (decode_utf8 env) (level_io env (depth (ls ! i))))
                 (map (\<lambda>p. (p, args_save_dir args, args_retries args)) (frontier (ls ! i)))
         \<and> set (next_level_prefixes (outcome (ls ! i))) =
             {q. \<exists>p e xp ch. (p, Inr (True, e, xp, ch)) \<in> set (seen (outcome (ls ! i))) \<and> q \<in> set ch})
     \<and> (\<forall>i. Suc i < length ls \<longrightarrow>
           depth (ls ! Suc i) = depth (ls ! i) + 1
         \<and> distinct (frontier (ls ! Suc i))
         \<and> set (frontier (ls ! Suc i)) =
             {q. \<exists>p e xp ch. (p, Inr (True, e, xp, ch)) \<in> set (seen (outcome (ls ! i))) \<and> q \<in> set ch})"
proof -
  have tr: "trace_ok env args 0 [Some (args_start_prefix args)] ls"
    using assms(2) xml_main_trace by simp
  have one: "list_set env [Some (args_start_prefix args)] = [Some (args_start_prefix args)]"
  proof -
    from assms(1) have s: "set (list_set env [Some (args_start_prefix args)]) = {Some (args_start_prefix args)}"
      and d: "distinct (list_set env [Some (args_start_prefix args)])" by auto
    from d have "length (list_set env [Some (args_start_prefix args)])
        = card (set (list_set env [Some (args_start_prefix args)]))"
      by (simp add: distinct_card)
    with s have "length (list_set env [Some (args_start_prefix args)]) = 1" by simp
    then obtain x where "list_set env [Some (args_start_prefix args)] = [x]"
      by (cases "list_set env [Some (args_start_prefix args)]") auto
    with s show ?thesis by auto
  qed
  have a: "ls \<noteq> [] \<longrightarrow> frontier (ls ! 0) = [Some (args_start_prefix args)] \<and> depth (ls ! 0) = 0"
    using trace_ok_first[OF tr] trace_ok_depth[OF tr, of 0] one by auto
  have b: "\<forall>i < length ls.
           map fst (seen (outcome (ls ! i))) = frontier (ls ! i)
         \<and> seen (outcome (ls ! i)) =
             map (view_of (et_fromstring env) (decode_utf8 env) (level_io env (depth (ls ! i))))
                 (map (\<lambda>p. (p, args_save_dir args, args_retries args)) (frontier (ls ! i)))
         \<and> set (next_level_prefixes (outcome (ls ! i))) =
             {q. \<exists>p e xp ch. (p, Inr (True, e, xp, ch)) \<in> set (seen (outcome (ls ! i))) \<and> q \<in> set ch}"
  proof (intro allI impI)
    fix i assume "i < length ls"
    then have "ls ! i \<in> set ls" by simp
    note m = trace_ok_member[OF tr this]
    from m have s: "seen (outcome (ls ! i)) =
             map (view_of (et_fromstring env) (decode_utf8 env) (level_io env (depth (ls ! i))))
                 (map (\<lambda>p. (p, args_save_dir args, args_retries args)) (frontier (ls ! i)))" by simp
    have f: "map fst (seen (outcome (ls ! i))) = frontier (ls ! i)"
      by (subst s) (rule map_fst_view_of)
    from m have "next_level_prefixes (outcome (ls ! i)) = concat (map children_of_seen (seen (outcome (ls ! i))))"
      by (simp add: level_ok_def)
    then have n: "set (next_level_prefixes (outcome (ls ! i))) =
             {q. \<exists>p e xp ch. (p, Inr (True, e, xp, ch)) \<in> set (seen (outcome (ls ! i))) \<and> q \<in> set ch}"
      by (simp only: set_children_of_seen)
    from f s n show "map fst (seen (outcome (ls ! i))) = frontier (ls ! i)
         \<and> seen (outcome (ls ! i)) =
             map (view_of (et_fromstring env) (decode_utf8 env) (level_io env (depth (ls ! i))))
                 (map (\<lambda>p. (p, args_save_dir args, args_retries args)) (frontier (ls ! i)))
         \<and> set (next_level_prefixes (outcome (ls ! i))) =
             {q. \<exists>p e xp ch. (p, Inr (True, e, xp, ch)) \<in> set (seen (outcome (ls ! i))) \<and> q \<in> set ch}"
      by blast
  qed
  have c: "\<forall>i. Suc i < length ls \<longrightarrow>
           depth (ls ! Suc i) = depth (ls ! i) + 1
         \<and> distinct (frontier (ls ! Suc i))
         \<and> set (frontier (ls ! Suc i)) =
             {q. \<exists>p e xp ch. (p, Inr (True, e, xp, ch)) \<in> set (seen (outcome (ls ! i))) \<and> q \<in> set ch}"
  proof (intro allI impI)
    fix i assume h: "Suc i < length ls"
    then have i: "i < length ls" by simp
    from trace_ok_depth[OF tr h] trace_ok_depth[OF tr i]
    have d: "depth (ls ! Suc i) = depth (ls ! i) + 1" by simp
    from trace_ok_next[OF tr h]
    have f: "frontier (ls ! Suc i) = list_set env (next_level_prefixes (outcome (ls ! i)))" .
    from b i have n: "set (next_level_prefixes (outcome (ls ! i))) =
             {q. \<exists>p e xp ch. (p, Inr (True, e, xp, ch)) \<in> set (seen (outcome (ls ! i))) \<and> q \<in> set ch}"
      by blast
    from f assms(1) have "distinct (frontier (ls ! Suc i))"
      and "set (frontier (ls ! Suc i)) = set (next_level_prefixes (outcome (ls ! i)))" by auto
    with d n show "depth (ls ! Suc i) = depth (ls ! i) + 1
         \<and> distinct (frontier (ls ! Suc i))
         \<and> set (frontier (ls ! Suc i)) =
             {q. \<exists>p e xp ch. (p, Inr (True, e, xp, ch)) \<in> set (seen (outcome (ls ! i))) \<and> q \<in> set ch}"
      by simp
  qed
  from a b c show ?thesis by blast
qed

lemma fixture_list_set:
  "\<forall>xs. set (list_set fixture_xml_env xs) = set xs \<and> distinct (list_set fixture_xml_env xs)"
  by (simp add: fixture_xml_env_def)

lemma fixture_run_3_fields:
  "length (levels (snd (xml_main fixture_xml_env (fixture_xml_args 3) empty_world))) = 3"
  "map depth (levels (snd (xml_main fixture_xml_env (fixture_xml_args 3) empty_world))) = [0, 1, 2]"
  "map frontier (levels (snd (xml_main fixture_xml_env (fixture_xml_args 3) empty_world)))
     = [[Some ''data/''], [Some ''a/'', Some ''b/''], [None, Some ''c/'']]"
  "map requested (levels (snd (xml_main fixture_xml_env (fixture_xml_args 3) empty_world)))
     = [[S3_BASE_URL @ ''data/''], [S3_BASE_URL @ ''a/'', S3_BASE_URL @ ''b/''], [S3_BASE_URL @ ''c/'']]"
  "map (\<lambda>r. failed_tasks (outcome r)) (levels (snd (xml_main fixture_xml_env (fixture_xml_args 3) empty_world)))
     = [[], [(Some ''a/'', Some (RequestException ''503''))], [(None, Some TypeError)]]"
proof -
  let ?ls = "levels (snd (xml_main fixture_xml_env (fixture_xml_args 3) empty_world))"
  let ?f = "\<lambda>r. (depth r, frontier r, requested r, seen (outcome r), failed_tasks (outcome r))"
  have "length ?ls = length (map ?f ?ls)" by simp
  then show "length ?ls = 3" by (simp only: fixture_run_3) simp
  have "map depth ?ls = map fst (map ?f ?ls)" by (simp add: comp_def)
  then show "map depth ?ls = [0, 1, 2]" by (simp only: fixture_run_3) simp
  have "map frontier ?ls = map (\<lambda>t. fst (snd t)) (map ?f ?ls)" by (simp add: comp_def)
  then show "map frontier ?ls = [[Some ''data/''], [Some ''a/'', Some ''b/''], [None, Some ''c/'']]"
    by (simp only: fixture_run_3) simp
  have "map requested ?ls = map (\<lambda>t. fst (snd (snd t))) (map ?f ?ls)" by (simp add: comp_def)
  then show "map requested ?ls
     = [[S3_BASE_URL @ ''data/''], [S3_BASE_URL @ ''a/'', S3_BASE_URL @ ''b/''], [S3_BASE_URL @ ''c/'']]"
    by (simp only: fixture_run_3) simp
  have "map (\<lambda>r. failed_tasks (outcome r)) ?ls = map (\<lambda>t. snd (snd (snd (snd t)))) (map ?f ?ls)"
    by (simp add: comp_def)
  then show "map (\<lambda>r. failed_tasks (outcome r)) ?ls
     = [[], [(Some ''a/'', Some (RequestException ''503''))], [(None, Some TypeError)]]"
    by (simp only: fixture_run_3) simp
qed

theorem frontier_is_union_of_children_witness:
  "length (levels (snd (xml_main fixture_xml_env (fixture_xml_args 3) empty_world))) = 3
   \<and> map frontier (levels (snd (xml_main fixture_xml_env (fixture_xml_args 3) empty_world)))
       = [[Some ''data/''], [Some ''a/'', Some ''b/''], [None, Some ''c/'']]
   \<and> depth (levels (snd (xml_main fixture_xml_env (fixture_xml_args 3) empty_world)) ! 2)
       = depth (levels (snd (xml_main fixture_xml_env (fixture_xml_args 3) empty_world)) ! 1) + 1
   \<and> distinct (frontier (levels (snd (xml_main fixture_xml_env (fixture_xml_args 3) empty_world)) ! 2))
   \<and> set (frontier (levels (snd (xml_main fixture_xml_env (fixture_xml_args 3) empty_world)) ! 2))
       = {q. \<exists>p e xp ch. (p, Inr (True, e, xp, ch))
               \<in> set (seen (outcome (levels (snd (xml_main fixture_xml_env (fixture_xml_args 3) empty_world)) ! 1)))
             \<and> q \<in> set ch}
   \<and> map fst (seen (outcome (levels (snd (xml_main fixture_xml_env (fixture_xml_args 3) empty_world)) ! 1)))
       = [Some ''a/'', Some ''b/'']"
proof -
  let ?ls = "levels (snd (xml_main fixture_xml_env (fixture_xml_args 3) empty_world))"
  note t = frontier_is_union_of_children[OF fixture_list_set refl, of "fixture_xml_args 3" empty_world]
  have len: "length ?ls = 3" by (rule fixture_run_3_fields)
  have fr: "map frontier ?ls = [[Some ''data/''], [Some ''a/'', Some ''b/''], [None, Some ''c/'']]"
    by (rule fixture_run_3_fields)
  from len have s: "Suc 1 < length ?ls" "1 < length ?ls" by simp_all
  from t s(1) have a: "depth (?ls ! Suc 1) = depth (?ls ! 1) + 1
         \<and> distinct (frontier (?ls ! Suc 1))
         \<and> set (frontier (?ls ! Suc 1)) =
             {q. \<exists>p e xp ch. (p, Inr (True, e, xp, ch)) \<in> set (seen (outcome (?ls ! 1))) \<and> q \<in> set ch}"
    by blast
  from t s(2) have b: "map fst (seen (outcome (?ls ! 1))) = frontier (?ls ! 1)" by blast
  have "frontier (?ls ! 1) = map frontier ?ls ! 1" using s(2) by simp
  with fr have c: "frontier (?ls ! 1) = [Some ''a/'', Some ''b/'']" by simp
  have two: "Suc 1 = (2::nat)" by simp
  from a b c len fr show ?thesis unfolding two by simp
qed

section \<open>Recursive crawler: verification\<close>

lemma send_xml_request_with_retry_eq:
  "send_xml_request_with_retry w url st = (fetch_outcome w, st\<lparr>gets := gets st @ [url]\<rparr>)"
  by (simp add: send_xml_request_with_retry_def fetch_outcome_def Let_def split: sum.splits)

lemma save_xml_file_gets: "gets (snd (save_xml_file w body fp st)) = gets st"
  by (simp add: save_xml_file_def split: option.splits)

lemma save_error_url_ok:
  "log_ok w \<Longrightarrow> save_error_url w l lg = (None, Some (log_lines lg @ [l]))"
  by (simp add: save_error_url_def log_ok_def log_lines_def split: option.splits)

lemma save_error_url_raises:
  "\<not> log_ok w \<Longrightarrow> fst (save_error_url w l lg) \<noteq> None \<and> log_lines (snd (save_error_url w l lg)) = log_lines lg"
  by (auto simp: save_error_url_def log_ok_def log_lines_def split: option.splits)

lemma handle_failure_ok:
  "log_ok w \<Longrightarrow>
     handle_failure w p e c = (None, c\<lparr>errors_log := Some (log_lines (errors_log c) @ [(p, e)])\<rparr>)"
  by (simp add: handle_failure_def save_error_url_ok)


lemma handle_failure_state:
  "fetched (snd (handle_failure w p e c)) = fetched c"
  "rworld (snd (handle_failure w p e c)) = rworld c"
  "visited (snd (handle_failure w p e c)) = visited c"
  "log_lines (errors_log (snd (handle_failure w p e c)))
     = log_lines (errors_log c) @ (if log_ok w then [(p, e)] else [])"
proof -
  show "fetched (snd (handle_failure w p e c)) = fetched c"
    by (simp add: handle_failure_def split: prod.splits)
  show "rworld (snd (handle_failure w p e c)) = rworld c"
    by (simp add: handle_failure_def split: prod.splits)
  show "visited (snd (handle_failure w p e c)) = visited c"
    by (simp add: handle_failure_def split: prod.splits)
  show "log_lines (errors_log (snd (handle_failure w p e c)))
     = log_lines (errors_log c) @ (if log_ok w then [(p, e)] else [])"
  proof (cases "log_ok w")
    case True
    then show ?thesis by (simp add: handle_failure_ok log_lines_def)
  next
    case False
    with save_error_url_raises[OF False, of "(p, e)" "errors_log c"] show ?thesis
      by (cases "save_error_url w (p, e) (errors_log c)") (simp add: handle_failure_def)
  qed
qed

lemma process_at_limit:
  "max_depth \<le> current_depth \<Longrightarrow>
     process_s3_directory_recursive env url pfx sd max_depth current_depth c = (None, c)"
  by (subst process_s3_directory_recursive.simps) simp

lemma process_none:
  "current_depth < max_depth \<Longrightarrow>
     process_s3_directory_recursive env url None sd max_depth current_depth c
       = (Some TypeError, c\<lparr>visited := visited c @ [(current_depth, None)]\<rparr>)"
  by (subst process_s3_directory_recursive.simps) (simp add: path_div_def Let_def)

lemma process_mkdir_fails:
  "current_depth < max_depth \<Longrightarrow> mkdir_exn (rec_io env (length (visited c))) = Some e \<Longrightarrow>
     process_s3_directory_recursive env url (Some p) sd max_depth current_depth c
       = (Some e, c\<lparr>visited := visited c @ [(current_depth, Some p)]\<rparr>)"
  by (subst process_s3_directory_recursive.simps) (simp add: path_div_def Let_def)

lemma process_fetch_fails_eq:
  "current_depth < max_depth \<Longrightarrow> mkdir_exn (rec_io env (length (visited c))) = None \<Longrightarrow>
   fetch_outcome (rec_io env (length (visited c))) = Inl e \<Longrightarrow>
     process_s3_directory_recursive env url (Some p) sd max_depth current_depth c
       = handle_failure (rec_io env (length (visited c))) p e
           (c\<lparr>visited := visited c @ [(current_depth, Some p)],
              rworld := (rworld c)\<lparr>gets := gets (rworld c) @ [url @ p]\<rparr>,
              fetched := fetched c @ [(current_depth, p, Some e)]\<rparr>)"
  by (subst process_s3_directory_recursive.simps)
     (simp add: path_div_def Let_def send_xml_request_with_retry_eq)


lemma process_fetch_ok:
  "current_depth < max_depth \<Longrightarrow> mkdir_exn (rec_io env (length (visited c))) = None \<Longrightarrow>
   fetch_outcome (rec_io env (length (visited c))) = Inr body \<Longrightarrow>
     process_s3_directory_recursive env url (Some p) sd max_depth current_depth c
       = (case process_children env url (get_common_prefixes (rec_fromstring env) body) sd max_depth
                 (current_depth + 1)
                 (c\<lparr>visited := visited c @ [(current_depth, Some p)],
                    rworld := snd (save_xml_file (rec_io env (length (visited c))) body
                                    (Join (Join sd p) (xml_filename p))
                                    ((rworld c)\<lparr>gets := gets (rworld c) @ [url @ p]\<rparr>)),
                    fetched := fetched c @ [(current_depth, p, None)]\<rparr>) of
            (None, c') \<Rightarrow> (None, c')
          | (Some e, c') \<Rightarrow> handle_failure (rec_io env (length (visited c))) p e c')"
  by (subst process_s3_directory_recursive.simps)
     (simp add: path_div_def Let_def send_xml_request_with_retry_eq split: prod.splits option.splits)

lemma failed_fetches_append: "failed_fetches (a @ b) = failed_fetches a @ failed_fetches b"
  by (simp add: failed_fetches_def)

lemma rec_extends_same:
  "fetched c' = fetched c \<Longrightarrow> gets (rworld c') = gets (rworld c) \<Longrightarrow> errors_log c' = errors_log c
     \<Longrightarrow> rec_extends logs url lo hi c c'"
  unfolding rec_extends_def
  by (intro exI[of _ "[]"]) (simp add: failed_fetches_def)

lemma rec_extends_trans:
  assumes "rec_extends logs url lo hi c c'" "rec_extends logs url lo hi c' c''"
  shows "rec_extends logs url lo hi c c''"
proof -
  from assms(1) obtain nf nl where 1: "fetched c' = fetched c @ nf"
    "\<forall>(d, p, x) \<in> set nf. lo \<le> d \<and> d < hi"
    "gets (rworld c') = gets (rworld c) @ map (\<lambda>(d, p, x). url @ p) nf"
    "log_lines (errors_log c') = log_lines (errors_log c) @ nl"
    "logs \<longrightarrow> subseq (failed_fetches nf) nl"
    unfolding rec_extends_def by blast
  from assms(2) obtain nf' nl' where 2: "fetched c'' = fetched c' @ nf'"
    "\<forall>(d, p, x) \<in> set nf'. lo \<le> d \<and> d < hi"
    "gets (rworld c'') = gets (rworld c') @ map (\<lambda>(d, p, x). url @ p) nf'"
    "log_lines (errors_log c'') = log_lines (errors_log c') @ nl'"
    "logs \<longrightarrow> subseq (failed_fetches nf') nl'"
    unfolding rec_extends_def by blast
  have s: "logs \<longrightarrow> subseq (failed_fetches (nf @ nf')) (nl @ nl')"
    using 1(5) 2(5) by (simp add: failed_fetches_append list_emb_append_mono)
  show ?thesis
    unfolding rec_extends_def
    using 1(1-4) 2(1-4) s by (intro exI[of _ "nf @ nf'"] exI[of _ "nl @ nl'"]) auto
qed

lemma rec_extends_weaken:
  assumes "rec_extends logs url lo' hi c c'" "lo \<le> lo'"
  shows "rec_extends logs url lo hi c c'"
proof -
  from assms(1) obtain nf nl where 1: "fetched c' = fetched c @ nf"
    "\<forall>(d, p, x) \<in> set nf. lo' \<le> d \<and> d < hi"
    "gets (rworld c') = gets (rworld c) @ map (\<lambda>(d, p, x). url @ p) nf"
    "log_lines (errors_log c') = log_lines (errors_log c) @ nl"
    "logs \<longrightarrow> subseq (failed_fetches nf) nl"
    unfolding rec_extends_def by blast
  from 1(2) assms(2) have "\<forall>(d, p, x) \<in> set nf. lo \<le> d \<and> d < hi" by fastforce
  with 1 show ?thesis unfolding rec_extends_def by blast
qed

lemma rec_extends_handle:
  assumes "rec_extends logs url lo hi c c'"
  shows "rec_extends logs url lo hi c (snd (handle_failure w p e c'))"
proof -
  from assms(1) obtain nf nl where 1: "fetched c' = fetched c @ nf"
    "\<forall>(d, p, x) \<in> set nf. lo \<le> d \<and> d < hi"
    "gets (rworld c') = gets (rworld c) @ map (\<lambda>(d, p, x). url @ p) nf"
    "log_lines (errors_log c') = log_lines (errors_log c) @ nl"
    "logs \<longrightarrow> subseq (failed_fetches nf) nl"
    unfolding rec_extends_def by blast
  let ?more = "if log_ok w then [(p, e)] else []"
  have "logs \<longrightarrow> subseq (failed_fetches nf) (nl @ ?more)"
    using 1(5) by (simp add: subseq_rev_drop_many)
  with 1(1-4) show ?thesis
    unfolding rec_extends_def
    by (intro exI[of _ nf] exI[of _ "nl @ ?more"]) (simp add: handle_failure_state)
qed

lemma rec_extends_fetch:
  assumes "lo \<le> d" "d < hi"
    and "fetched c' = fetched c @ [(d, p, x)]"
    and "gets (rworld c') = gets (rworld c) @ [url @ p]"
    and "log_lines (errors_log c') = log_lines (errors_log c) @ nl"
    and "logs \<longrightarrow> nl = failed_fetches [(d, p, x)]"
  shows "rec_extends logs url lo hi c c'"
  unfolding rec_extends_def
  using assms by (intro exI[of _ "[(d, p, x)]"] exI[of _ nl]) auto

lemma process_extends:
  "rec_extends (\<forall>n. log_ok (rec_io env n)) url current_depth max_depth c
     (snd (process_s3_directory_recursive env url pfx sd max_depth current_depth c))"
  and children_extend:
  "rec_extends (\<forall>n. log_ok (rec_io env n)) url current_depth max_depth c
     (snd (process_children env url cs sd max_depth current_depth c))"
proof (induction env url pfx sd max_depth current_depth c
         and env url cs sd max_depth current_depth c
       rule: process_s3_directory_recursive_process_children.induct)
  case (1 env url pfx sd md d c)
  let ?logs = "\<forall>n. log_ok (rec_io env n)"
  show ?case
  proof (cases "md \<le> d")
    case True
    then show ?thesis by (simp add: process_at_limit rec_extends_same)
  next
    case False
    then have lt: "d < md" by simp
    show ?thesis
    proof (cases pfx)
      case None
      with lt show ?thesis by (simp add: process_none rec_extends_same)
    next
      case (Some p)
      let ?w = "rec_io env (length (visited c))"
      show ?thesis
      proof (cases "mkdir_exn ?w")
        case (Some e)
        with lt \<open>pfx = Some p\<close> show ?thesis by (simp add: process_mkdir_fails rec_extends_same)
      next
        case None
        show ?thesis
        proof (cases "fetch_outcome ?w")
          case (Inl e)
          let ?c1 = "c\<lparr>visited := visited c @ [(d, Some p)],
                     rworld := (rworld c)\<lparr>gets := gets (rworld c) @ [url @ p]\<rparr>,
                     fetched := fetched c @ [(d, p, Some e)]\<rparr>"
          have "rec_extends ?logs url d md c (snd (handle_failure ?w p e ?c1))"
            using lt
            by (intro rec_extends_fetch[where d=d and p=p and x="Some e"
                  and nl="if log_ok ?w then [(p, e)] else []"])
               (auto simp: handle_failure_state failed_fetches_def)
          with lt None Inl \<open>pfx = Some p\<close> show ?thesis by (simp add: process_fetch_fails_eq)
        next
          case (Inr body)
          let ?c2 = "c\<lparr>visited := visited c @ [(d, Some p)],
                    rworld := snd (save_xml_file ?w body (Join (Join sd p) (xml_filename p))
                                    ((rworld c)\<lparr>gets := gets (rworld c) @ [url @ p]\<rparr>)),
                    fetched := fetched c @ [(d, p, None)]\<rparr>"
          let ?res = "process_children env url (get_common_prefixes (rec_fromstring env) body) sd md (d + 1) ?c2"
          have pd: "path_div sd pfx = Inr (Join sd p)"
            using \<open>pfx = Some p\<close> by (simp add: path_div_def)
          have se: "(Inr body, (rworld c)\<lparr>gets := gets (rworld c) @ [url @ p]\<rparr>)
                      = send_xml_request_with_retry ?w (url @ the pfx)
                          (rworld (c\<lparr>visited := visited c @ [(d, pfx)]\<rparr>))"
            using Inr \<open>pfx = Some p\<close> by (simp add: send_xml_request_with_retry_eq)
          have ih: "rec_extends ?logs url (d + 1) md ?c2 (snd ?res)"
            using "1.IH"[OF False refl refl pd None refl se refl refl refl refl] \<open>pfx = Some p\<close>
            by simp
          have first: "rec_extends ?logs url d md c ?c2"
            using lt by (intro rec_extends_fetch[where d=d and p=p and x=None and nl="[]"])
              (simp_all add: save_xml_file_gets failed_fetches_def)
          from rec_extends_trans[OF first rec_extends_weaken[OF ih]]
          have all: "rec_extends ?logs url d md c (snd ?res)" by simp
          obtain x c3 where r: "?res = (x, c3)" by (cases ?res) auto
          with all have a3: "rec_extends ?logs url d md c c3" by simp
          show ?thesis
          proof (cases x)
            case None
            with lt \<open>mkdir_exn ?w = None\<close> Inr \<open>pfx = Some p\<close> r a3 show ?thesis
              by (simp add: process_fetch_ok)
          next
            case (Some e)
            with lt \<open>mkdir_exn ?w = None\<close> Inr \<open>pfx = Some p\<close> r
              rec_extends_handle[OF a3, of ?w p e] show ?thesis
              by (simp add: process_fetch_ok)
          qed
        qed
      qed
    qed
  qed
next
  case (2 env url sd md d c)
  show ?case by (simp add: rec_extends_same)
next
  case (3 env url child rest sd md d c)
  obtain x c1 where r: "process_s3_directory_recursive env url child sd md d c = (x, c1)"
    by (cases "process_s3_directory_recursive env url child sd md d c") auto
  with "3.IH"(1) have a: "rec_extends (\<forall>n. log_ok (rec_io env n)) url d md c c1" by simp
  show ?case
  proof (cases x)
    case (Some e)
    with r a show ?thesis by simp
  next
    case None
    from "3.IH"(2)[OF r[symmetric] None] have "rec_extends (\<forall>n. log_ok (rec_io env n)) url d md c1
       (snd (process_children env url rest sd md d c1))" .
    from rec_extends_trans[OF a this] r None show ?thesis by simp
  qed
qed







lemma process_some_eq:
  "process_s3_directory_recursive env url (Some p) sd max_depth current_depth c =
     (if max_depth \<le> current_depth then (None, c)
      else (case mkdir_exn (rec_io env (length (visited c))) of
              Some e \<Rightarrow> (Some e, c\<lparr>visited := visited c @ [(current_depth, Some p)]\<rparr>)
            | None \<Rightarrow>
               (case fetch_outcome (rec_io env (length (visited c))) of
                  Inl e \<Rightarrow>
                    handle_failure (rec_io env (length (visited c))) p e
                      (c\<lparr>visited := visited c @ [(current_depth, Some p)],
                         rworld := (rworld c)\<lparr>gets := gets (rworld c) @ [url @ p]\<rparr>,
                         fetched := fetched c @ [(current_depth, p, Some e)]\<rparr>)
                | Inr body \<Rightarrow>
                    (case process_children env url (get_common_prefixes (rec_fromstring env) body) sd
                            max_depth (current_depth + 1)
                            (c\<lparr>visited := visited c @ [(current_depth, Some p)],
                               rworld := snd (save_xml_file (rec_io env (length (visited c))) body
                                    (Join (Join sd p) (xml_filename p))
                                    ((rworld c)\<lparr>gets := gets (rworld c) @ [url @ p]\<rparr>)),
                               fetched := fetched c @ [(current_depth, p, None)]\<rparr>) of
                       (None, c') \<Rightarrow> (None, c')
                     | (Some e, c') \<Rightarrow> handle_failure (rec_io env (length (visited c))) p e c'))))"
  by (simp add: process_at_limit process_mkdir_fails process_fetch_fails_eq process_fetch_ok
      split: option.splits sum.splits)

lemma fetch_outcome_fixture:
  "fetch_outcome (io_ok body) = Inr body"
  "fetch_outcome (io_fail e) = Inl e"
  by (simp_all add: fetch_outcome_def io_ok_def io_fail_def)

lemma log_ok_fixture:
  "log_ok (io_ok body)"
  "log_ok (io_fail e)"
  by (simp_all add: log_ok_def io_ok_def io_fail_def)


lemma fixture_rec_run_1:
  "process_s3_directory_recursive fixture_rec_tree S3_BASE_URL (Some ''data/'') (Path ''./data'') 1 0 rcrawl_start
   = (None,
      \<lparr>rworld = \<lparr>files = [Join (Join (Path ''./data'') ''data/'') (xml_filename ''data/'') \<mapsto> ''<root/>''],
                 gets = [S3_BASE_URL @ ''data/'']\<rparr>,
       visited = [(0, Some ''data/'')],
       fetched = [(0, ''data/'', None)],
       errors_log = None\<rparr>)"
  by (simp add: process_some_eq fixture_rec_tree_def rcrawl_start_def io_ok_fields io_fail_fields
      fetch_outcome_fixture fixture_children save_xml_file_def handle_failure_ok log_ok_fixture
      log_lines_def empty_world_def)


section \<open>Depth limit: verification\<close>

lemma requests_of_member:
  "u \<in> set (requests_of w p) \<Longrightarrow> \<exists>s. p = Some s \<and> u = S3_BASE_URL @ s"
  by (auto simp: requests_of_def split: option.splits if_splits)

lemma main_loop_at_limit:
  "args_max_depth args \<le> level \<Longrightarrow> main_loop env args level cur c = (Returned, c)"
  by (subst main_loop.simps) simp

lemma xml_main_gets:
  "gets (cworld (snd (xml_main env args st)))
     = gets st @ concat (map requested (levels (snd (xml_main env args st))))"
  using xml_main_extends[of env args st]
  by (auto simp: run_extends_def crawl_start_def)

text \<open>
  C2. In a run of the level-synchronised crawler the \<open>i\<close>-th dispatched level has
  depth \<open>i\<close> (the start prefix is level 0) and every dispatched level has a depth
  below \<^verbatim>\<open>max_depth\<close>; the URLs requested in the whole run are those requested in
  the dispatched levels, each for a prefix of that level's frontier; and the loop
  entered with \<^verbatim>\<open>level >= max_depth\<close> returns at once and requests nothing. In the
  recursive crawler every request that a call adds is made at a depth from
  \<^verbatim>\<open>current_depth\<close> up to but not including \<^verbatim>\<open>max_depth\<close>, the URLs requested are
  those, and a call with \<^verbatim>\<open>current_depth >= max_depth\<close> returns at once with the state
  unchanged. So a prefix at depth \<^verbatim>\<open>max_depth\<close> or deeper is never fetched, the
  boundary being at equality.
\<close>

theorem depth_bound:
  assumes "ls = levels (snd (xml_main env args st))"
    and "rc' = snd (process_s3_directory_recursive renv url pfx sd max_depth current_depth rc)"
  shows "(\<forall>i < length ls. depth (ls ! i) = int i \<and> depth (ls ! i) < args_max_depth args)
     \<and> gets (cworld (snd (xml_main env args st))) = gets st @ concat (map requested ls)
     \<and> (\<forall>r \<in> set ls. \<forall>u \<in> set (requested r). \<exists>p. Some p \<in> set (frontier r) \<and> u = S3_BASE_URL @ p)
     \<and> (args_max_depth args \<le> level \<longrightarrow> main_loop env args level cur c = (Returned, c))
     \<and> (\<exists>nf. fetched rc' = fetched rc @ nf
            \<and> (\<forall>(d, p, x) \<in> set nf. current_depth \<le> d \<and> d < max_depth)
            \<and> gets (rworld rc') = gets (rworld rc) @ map (\<lambda>(d, p, x). url @ p) nf)
     \<and> (max_depth \<le> current_depth \<longrightarrow>
           process_s3_directory_recursive renv url pfx sd max_depth current_depth rc = (None, rc))"
proof -
  have tr: "trace_ok env args 0 [Some (args_start_prefix args)] ls"
    using assms(1) xml_main_trace by simp
  have a: "\<forall>i < length ls. depth (ls ! i) = int i \<and> depth (ls ! i) < args_max_depth args"
  proof (intro allI impI)
    fix i assume "i < length ls"
    from trace_ok_depth[OF tr this]
    show "depth (ls ! i) = int i \<and> depth (ls ! i) < args_max_depth args" by simp
  qed
  have b: "gets (cworld (snd (xml_main env args st))) = gets st @ concat (map requested ls)"
    using assms(1) xml_main_gets by simp
  have c: "\<forall>r \<in> set ls. \<forall>u \<in> set (requested r). \<exists>p. Some p \<in> set (frontier r) \<and> u = S3_BASE_URL @ p"
  proof (intro ballI)
    fix r u assume r: "r \<in> set ls" and u: "u \<in> set (requested r)"
    from trace_ok_member[OF tr r]
    have "requested r = concat (map (\<lambda>p. requests_of (level_io env (depth r) p) p) (frontier r))"
      by simp
    with u obtain q where q: "q \<in> set (frontier r)" "u \<in> set (requests_of (level_io env (depth r) q) q)"
      by auto
    from requests_of_member[OF q(2)] q(1)
    show "\<exists>p. Some p \<in> set (frontier r) \<and> u = S3_BASE_URL @ p" by auto
  qed
  have d: "args_max_depth args \<le> level \<longrightarrow> main_loop env args level cur c = (Returned, c)"
    by (simp add: main_loop_at_limit)
  have e: "\<exists>nf. fetched rc' = fetched rc @ nf
            \<and> (\<forall>(d, p, x) \<in> set nf. current_depth \<le> d \<and> d < max_depth)
            \<and> gets (rworld rc') = gets (rworld rc) @ map (\<lambda>(d, p, x). url @ p) nf"
    using process_extends[where url=url and current_depth=current_depth and max_depth=max_depth
        and c=rc and env=renv and pfx=pfx and sd=sd] assms(2)
    unfolding rec_extends_def by blast
  have f: "max_depth \<le> current_depth \<longrightarrow>
           process_s3_directory_recursive renv url pfx sd max_depth current_depth rc = (None, rc)"
    by (simp add: process_at_limit)
  from a b c d e f show ?thesis by blast
qed

lemma fixture_run_2:
  "map (\<lambda>r. (depth r, frontier r, requested r, next_level_prefixes (outcome r)))
     (levels (snd (xml_main fixture_xml_env (fixture_xml_args 2) empty_world)))
   = [(0, [Some ''data/''], [S3_BASE_URL @ ''data/''], [Some ''a/'', Some ''b/'']),
      (1, [Some ''a/'', Some ''b/''], [S3_BASE_URL @ ''a/'', S3_BASE_URL @ ''b/''],
       [None, Some ''c/'', Some ''c/''])]"
  by (simp add: xml_main_def main_loop.simps fixture_xml_env_def fixture_xml_args_def
      process_level_with_multiprocessing_def level_start_def crawl_start_def Let_def
      fixture_level_io_def worker_io_ok worker_io_fail download_xml_worker_none
      io_ok_fields io_fail_fields fixture_children empty_world_def)

lemma fixture_run_2_gets:
  "gets (cworld (snd (xml_main fixture_xml_env (fixture_xml_args 2) empty_world)))
     = [S3_BASE_URL @ ''data/'', S3_BASE_URL @ ''a/'', S3_BASE_URL @ ''b/'']"
  by (simp add: xml_main_def main_loop.simps fixture_xml_env_def fixture_xml_args_def
      process_level_with_multiprocessing_def level_start_def crawl_start_def Let_def
      fixture_level_io_def worker_io_ok worker_io_fail download_xml_worker_none
      io_ok_fields io_fail_fields fixture_children empty_world_def)

theorem depth_bound_witness:
  "map depth (levels (snd (xml_main fixture_xml_env (fixture_xml_args 2) empty_world))) = [0, 1]
   \<and> map (\<lambda>r. next_level_prefixes (outcome r))
        (levels (snd (xml_main fixture_xml_env (fixture_xml_args 2) empty_world)))
       = [[Some ''a/'', Some ''b/''], [None, Some ''c/'', Some ''c/'']]
   \<and> gets (cworld (snd (xml_main fixture_xml_env (fixture_xml_args 2) empty_world)))
       = [S3_BASE_URL @ ''data/'', S3_BASE_URL @ ''a/'', S3_BASE_URL @ ''b/'']
   \<and> args_max_depth (fixture_xml_args 2) \<le> 2
   \<and> main_loop fixture_xml_env (fixture_xml_args 2) 2 [Some ''c/''] (crawl_start empty_world)
       = (Returned, crawl_start empty_world)
   \<and> fetched (snd (process_s3_directory_recursive fixture_rec_tree S3_BASE_URL (Some ''data/'')
                      (Path ''./data'') 1 0 rcrawl_start)) = [(0, ''data/'', None)]
   \<and> gets (rworld (snd (process_s3_directory_recursive fixture_rec_tree S3_BASE_URL (Some ''data/'')
                      (Path ''./data'') 1 0 rcrawl_start))) = [S3_BASE_URL @ ''data/'']
   \<and> process_s3_directory_recursive fixture_rec_tree S3_BASE_URL (Some ''a/'') (Path ''./data'') 1 1
        rcrawl_start = (None, rcrawl_start)"
proof -
  let ?ls = "levels (snd (xml_main fixture_xml_env (fixture_xml_args 2) empty_world))"
  let ?f = "\<lambda>r. (depth r, frontier r, requested r, next_level_prefixes (outcome r))"
  note t = depth_bound[OF refl refl, where env=fixture_xml_env and args="fixture_xml_args 2"
      and st=empty_world and level=2 and cur="[Some ''c/'']" and c="crawl_start empty_world"
      and max_depth=1 and current_depth=1 and renv=fixture_rec_tree and url=S3_BASE_URL
      and pfx="Some ''a/''" and sd="Path ''./data''" and rc=rcrawl_start]
  have "map depth ?ls = map fst (map ?f ?ls)" by (simp add: comp_def)
  then have d: "map depth ?ls = [0, 1]" by (simp only: fixture_run_2) simp
  have "map (\<lambda>r. next_level_prefixes (outcome r)) ?ls = map (\<lambda>t. snd (snd (snd t))) (map ?f ?ls)"
    by (simp add: comp_def)
  then have n: "map (\<lambda>r. next_level_prefixes (outcome r)) ?ls
       = [[Some ''a/'', Some ''b/''], [None, Some ''c/'', Some ''c/'']]"
    by (simp only: fixture_run_2) simp
  have m: "args_max_depth (fixture_xml_args 2) \<le> 2" by (simp add: fixture_xml_args_def)
  from t m have l: "main_loop fixture_xml_env (fixture_xml_args 2) 2 [Some ''c/''] (crawl_start empty_world)
       = (Returned, crawl_start empty_world)" by blast
  from t have r: "process_s3_directory_recursive fixture_rec_tree S3_BASE_URL (Some ''a/'') (Path ''./data'') 1 1
        rcrawl_start = (None, rcrawl_start)" by simp
  from d n m l r fixture_run_2_gets show ?thesis by (simp add: fixture_rec_run_1)
qed

section \<open>Failure ledger: verification\<close>
















section \<open>Empty prefix elements: verification\<close>

lemma children_of_seen_member:
  "(p, Inr (True, e, xp, ch)) \<in> set xs \<Longrightarrow> set ch \<subseteq> set (concat (map children_of_seen xs))"
proof -
  assume m: "(p, Inr (True, e, xp, ch)) \<in> set xs"
  have "children_of_seen (p, Inr (True, e, xp, ch)) = ch" by (simp add: children_of_seen_def)
  with m show ?thesis by force
qed

text \<open>
  C10. When a well-formed listing has a \<^verbatim>\<open>CommonPrefixes\<close> element whose first \<^verbatim>\<open>Prefix\<close>
  child has no text, the list that \<^verbatim>\<open>get_common_prefixes\<close> returns contains \<^verbatim>\<open>None\<close>.
  The level-synchronised crawler passes it on: a \<^verbatim>\<open>None\<close> among the children of a
  successful result is in \<^verbatim>\<open>next_level_prefixes\<close> and in the next frontier that is
  dispatched, where the worker fails on it with \<^verbatim>\<open>TypeError\<close>. The recursive crawler
  passes it to the recursive call, which raises \<^verbatim>\<open>TypeError\<close> before its \<^verbatim>\<open>try\<close>, so that
  the loop over the children ends there.
\<close>

theorem empty_prefix_element_yields_none:
  assumes "\<forall>xs. set (list_set env xs) = set xs \<and> distinct (list_set env xs)"
    and "ls = levels (snd (xml_main env args st))"
  shows "(fromstring doc = Inr root \<and> cp \<in> set (findall root ''CommonPrefixes'')
          \<and> find_child cp ''Prefix'' = Some pe \<and> etext pe = None \<longrightarrow>
            None \<in> set (get_common_prefixes fromstring doc))
     \<and> (i < length ls \<and> (p, Inr (True, e, xp, ch)) \<in> set (seen (outcome (ls ! i))) \<and> None \<in> set ch \<longrightarrow>
            None \<in> set (next_level_prefixes (outcome (ls ! i)))
          \<and> (Suc i < length ls \<longrightarrow> None \<in> set (frontier (ls ! Suc i))))
     \<and> download_xml_worker fromstring decode w wst (None, sd, r) = ((False, Some TypeError, Path [], []), wst)
     \<and> (current_depth < max_depth \<longrightarrow>
            process_s3_directory_recursive renv url None sd max_depth current_depth rc
              = (Some TypeError, rc\<lparr>visited := visited rc @ [(current_depth, None)]\<rparr>)
          \<and> process_children renv url (None # rest) sd max_depth current_depth rc
              = (Some TypeError, rc\<lparr>visited := visited rc @ [(current_depth, None)]\<rparr>))"
proof -
  have a: "fromstring doc = Inr root \<and> cp \<in> set (findall root ''CommonPrefixes'')
          \<and> find_child cp ''Prefix'' = Some pe \<and> etext pe = None \<longrightarrow>
            None \<in> set (get_common_prefixes fromstring doc)"
  proof
    assume h: "fromstring doc = Inr root \<and> cp \<in> set (findall root ''CommonPrefixes'')
          \<and> find_child cp ''Prefix'' = Some pe \<and> etext pe = None"
    then have "prefix_of_common cp = [None]" by (simp add: prefix_of_common_def)
    with h have "None \<in> set (child_prefixes_of root)"
      unfolding child_prefixes_of_def by force
    with h show "None \<in> set (get_common_prefixes fromstring doc)"
      by (simp add: get_common_prefixes_eq)
  qed
  have tr: "trace_ok env args 0 [Some (args_start_prefix args)] ls"
    using assms(2) xml_main_trace by simp
  have b: "i < length ls \<and> (p, Inr (True, e, xp, ch)) \<in> set (seen (outcome (ls ! i))) \<and> None \<in> set ch \<longrightarrow>
            None \<in> set (next_level_prefixes (outcome (ls ! i)))
          \<and> (Suc i < length ls \<longrightarrow> None \<in> set (frontier (ls ! Suc i)))"
  proof
    assume h: "i < length ls \<and> (p, Inr (True, e, xp, ch)) \<in> set (seen (outcome (ls ! i))) \<and> None \<in> set ch"
    then have "ls ! i \<in> set ls" by simp
    from trace_ok_member[OF tr this]
    have "next_level_prefixes (outcome (ls ! i)) = concat (map children_of_seen (seen (outcome (ls ! i))))"
      by (simp add: level_ok_def)
    with h children_of_seen_member[of p e xp ch "seen (outcome (ls ! i))"]
    have n: "None \<in> set (next_level_prefixes (outcome (ls ! i)))" by auto
    have "Suc i < length ls \<longrightarrow> None \<in> set (frontier (ls ! Suc i))"
    proof
      assume "Suc i < length ls"
      from trace_ok_next[OF tr this] assms(1) n show "None \<in> set (frontier (ls ! Suc i))" by simp
    qed
    with n show "None \<in> set (next_level_prefixes (outcome (ls ! i)))
          \<and> (Suc i < length ls \<longrightarrow> None \<in> set (frontier (ls ! Suc i)))" by simp
  qed
  have c: "download_xml_worker fromstring decode w wst (None, sd, r) = ((False, Some TypeError, Path [], []), wst)"
    by (rule download_xml_worker_none)
  have d: "current_depth < max_depth \<longrightarrow>
            process_s3_directory_recursive renv url None sd max_depth current_depth rc
              = (Some TypeError, rc\<lparr>visited := visited rc @ [(current_depth, None)]\<rparr>)
          \<and> process_children renv url (None # rest) sd max_depth current_depth rc
              = (Some TypeError, rc\<lparr>visited := visited rc @ [(current_depth, None)]\<rparr>)"
    by (simp add: process_none)
  from a b c d show ?thesis by blast
qed

lemma fixture_hole:
  "fixture_fromstring ''<hole/>''
     = Inr (listing [fx_common_prefix None, fx_common_prefix (Some ''c/''), fx_common_prefix (Some ''c/'')])"
  "fx_common_prefix None
     \<in> set (findall (listing [fx_common_prefix None, fx_common_prefix (Some ''c/''), fx_common_prefix (Some ''c/'')])
               ''CommonPrefixes'')"
  "find_child (fx_common_prefix None) ''Prefix'' = Some (Element (s3 @ ''Prefix'') None [])"
  by (simp_all add: fixture_fromstring_def listing_def findall_def fx_common_prefix_def find_child_def)

lemma fixture_run_3_seen:
  "(Some ''b/'', Inr (True, None, Join (Join (Path ''./data'') ''b/'') (xml_filename ''b/''),
            [None, Some ''c/'', Some ''c/'']))
     \<in> set (seen (outcome (levels (snd (xml_main fixture_xml_env (fixture_xml_args 3) empty_world)) ! 1)))"
proof -
  let ?ls = "levels (snd (xml_main fixture_xml_env (fixture_xml_args 3) empty_world))"
  let ?f = "\<lambda>r. (depth r, frontier r, requested r, seen (outcome r), failed_tasks (outcome r))"
  have len: "length ?ls = 3" by (rule fixture_run_3_fields)
  have "?f (?ls ! 1) = map ?f ?ls ! 1" using len by simp
  then show ?thesis by (simp add: fixture_run_3)
qed

theorem empty_prefix_element_yields_none_witness:
  "get_common_prefixes fixture_fromstring ''<hole/>'' = [None, Some ''c/'', Some ''c/'']
   \<and> None \<in> set (get_common_prefixes fixture_fromstring ''<hole/>'')
   \<and> (1::nat) < length (levels (snd (xml_main fixture_xml_env (fixture_xml_args 3) empty_world)))
   \<and> Suc 1 < length (levels (snd (xml_main fixture_xml_env (fixture_xml_args 3) empty_world)))
   \<and> (Some ''b/'', Inr (True, None, Join (Join (Path ''./data'') ''b/'') (xml_filename ''b/''),
            [None, Some ''c/'', Some ''c/'']))
        \<in> set (seen (outcome (levels (snd (xml_main fixture_xml_env (fixture_xml_args 3) empty_world)) ! 1)))
   \<and> None \<in> set (next_level_prefixes
                    (outcome (levels (snd (xml_main fixture_xml_env (fixture_xml_args 3) empty_world)) ! 1)))
   \<and> None \<in> set (frontier (levels (snd (xml_main fixture_xml_env (fixture_xml_args 3) empty_world)) ! Suc 1))
   \<and> map frontier (levels (snd (xml_main fixture_xml_env (fixture_xml_args 3) empty_world)))
       = [[Some ''data/''], [Some ''a/'', Some ''b/''], [None, Some ''c/'']]
   \<and> download_xml_worker fixture_fromstring Inr (io_ok ''<empty/>'') empty_world (None, Path ''./data'', 3)
       = ((False, Some TypeError, Path [], []), empty_world)
   \<and> (0::int) < 2
   \<and> process_s3_directory_recursive fixture_rec_tree S3_BASE_URL None (Path ''./data'') 2 0 rcrawl_start
       = (Some TypeError, rcrawl_start\<lparr>visited := [(0, None)]\<rparr>)"
proof -
  let ?ls = "levels (snd (xml_main fixture_xml_env (fixture_xml_args 3) empty_world))"
  note t = empty_prefix_element_yields_none[OF fixture_list_set refl,
      where args="fixture_xml_args 3" and st=empty_world
      and fromstring=fixture_fromstring and doc="''<hole/>''"
      and root="listing [fx_common_prefix None, fx_common_prefix (Some ''c/''), fx_common_prefix (Some ''c/'')]"
      and cp="fx_common_prefix None" and pe="Element (s3 @ ''Prefix'') None []"
      and i=1 and p="Some ''b/''" and e=None
      and xp="Join (Join (Path ''./data'') ''b/'') (xml_filename ''b/'')"
      and ch="[None, Some ''c/'', Some ''c/'']"
      and decode=Inr and w="io_ok ''<empty/>''" and wst=empty_world and sd="Path ''./data''" and r=3
      and current_depth=0 and max_depth=2 and renv=fixture_rec_tree and url=S3_BASE_URL
      and rc=rcrawl_start and rest="[]"]
  have len: "length ?ls = 3" by (rule fixture_run_3_fields)
  from t fixture_hole have a: "None \<in> set (get_common_prefixes fixture_fromstring ''<hole/>'')"
    by simp
  from t len fixture_run_3_seen
  have b: "None \<in> set (next_level_prefixes (outcome (?ls ! 1)))"
    "None \<in> set (frontier (?ls ! Suc 1))" by simp_all
  from t have c: "download_xml_worker fixture_fromstring Inr (io_ok ''<empty/>'') empty_world (None, Path ''./data'', 3)
       = ((False, Some TypeError, Path [], []), empty_world)" by blast
  from t have d: "process_s3_directory_recursive fixture_rec_tree S3_BASE_URL None (Path ''./data'') 2 0 rcrawl_start
       = (Some TypeError, rcrawl_start\<lparr>visited := [(0, None)]\<rparr>)"
    by (simp add: rcrawl_start_def)
  from a b c d len fixture_run_3_seen fixture_run_3_fields(3) fixture_children(2)
  show ?thesis by simp
qed

end
